theory Spec2Isabelle
  imports Main "HOL-Library.Word"
begin

section \<open>The Move substrate used by the two contract modules\<close>

text \<open>
  The ledger core of the repository is the pair of Move modules
  \<^verbatim>\<open>bunker_contracts::access_policy\<close> and \<^verbatim>\<open>bunker_contracts::collection\<close>.
  Move integers are fixed-width and every arithmetic operation is checked: an overflow,
  an underflow or a division by zero aborts the whole transaction. A transaction that
  aborts changes nothing, so every entry function is modelled as a function into
  \<open>error + result\<close>, where \<open>Inl\<close> carries the abort and no state.
  Events are write-only log entries; they are not part of the state and are left out.
  A vector is a list; the u64 loop counters of the source stay below the length of the
  vector they index, so they cannot overflow and are natural numbers here.
\<close>

type_synonym u8 = "8 word"
type_synonym u64 = "64 word"
type_synonym address = "256 word"
type_synonym ID = "256 word"

datatype error =
    AP_ENotAuthorized      \<comment> \<open>access_policy::ENotAuthorized = 0\<close>
  | AP_ENotOwner           \<comment> \<open>access_policy::ENotOwner = 1\<close>
  | AP_ENoAccess           \<comment> \<open>access_policy::ENoAccess = 3\<close>
  | EInvalidPrice          \<comment> \<open>collection::EInvalidPrice = 1\<close>
  | EInsufficientPayment   \<comment> \<open>collection::EInsufficientPayment = 2\<close>
  | ENotOwner              \<comment> \<open>collection::ENotOwner = 3\<close>
  | ECollectionDeleted     \<comment> \<open>collection::ECollectionDeleted = 6\<close>
  | ArithmeticError        \<comment> \<open>the VM's abort on overflow, underflow, division by zero\<close>
  | EIndexOutOfBounds      \<comment> \<open>vector::borrow outside the vector\<close>
  | ENotEnough             \<comment> \<open>coin::split of more than the coin holds\<close>
  | ENonZero               \<comment> \<open>coin::destroy_zero of a coin that is not empty\<close>
  | EFieldAlreadyExists    \<comment> \<open>table::add of a key that is present\<close>
  | EFieldDoesNotExist     \<comment> \<open>table::remove of a key that is absent\<close>

definition and_then :: "error + 'a \<Rightarrow> ('a \<Rightarrow> error + 'b) \<Rightarrow> error + 'b" where
  "and_then m f = (case m of Inl e \<Rightarrow> Inl e | Inr x \<Rightarrow> f x)"

subsection \<open>Checked u64 arithmetic\<close>

definition u64_add :: "u64 \<Rightarrow> u64 \<Rightarrow> error + u64" where
  "u64_add a b = (if unat a + unat b < 2 ^ 64 then Inr (a + b) else Inl ArithmeticError)"

definition u64_sub :: "u64 \<Rightarrow> u64 \<Rightarrow> error + u64" where
  "u64_sub a b = (if unat b \<le> unat a then Inr (a - b) else Inl ArithmeticError)"

definition u64_mul :: "u64 \<Rightarrow> u64 \<Rightarrow> error + u64" where
  "u64_mul a b = (if unat a * unat b < 2 ^ 64 then Inr (a * b) else Inl ArithmeticError)"

definition u64_div :: "u64 \<Rightarrow> u64 \<Rightarrow> error + u64" where
  "u64_div a b = (if b = 0 then Inl ArithmeticError else Inr (a div b))"

subsection \<open>Vectors, tables, transaction context\<close>

definition borrow :: "'a list \<Rightarrow> nat \<Rightarrow> error + 'a" where
  "borrow v i = (if i < length v then Inr (v ! i) else Inl EIndexOutOfBounds)"

type_synonym 'v table = "address \<rightharpoonup> 'v"

definition table_contains :: "'v table \<Rightarrow> address \<Rightarrow> bool" where
  "table_contains t k = (t k \<noteq> None)"

definition table_add :: "'v table \<Rightarrow> address \<Rightarrow> 'v \<Rightarrow> error + 'v table" where
  "table_add t k v = (if table_contains t k then Inl EFieldAlreadyExists else Inr (t(k \<mapsto> v)))"

definition table_remove :: "'v table \<Rightarrow> address \<Rightarrow> error + 'v table" where
  "table_remove t k = (if table_contains t k then Inr (t(k := None)) else Inl EFieldDoesNotExist)"

text \<open>
  The transaction context supplies the sender, the epoch timestamp and fresh object
  identities. \<open>fresh_id ctx n\<close> stands for the identity the framework derives from the
  transaction digest and the number \<open>n\<close> of objects the transaction has created so far.
\<close>

record tx_context =
  sender :: address
  epoch_timestamp_ms :: u64
  fresh_id :: "nat \<Rightarrow> ID"
  ids_created :: nat

definition object_new :: "tx_context \<Rightarrow> ID \<times> tx_context" where
  "object_new ctx = (fresh_id ctx (ids_created ctx), ctx\<lparr>ids_created := Suc (ids_created ctx)\<rparr>)"

text \<open>\<^verbatim>\<open>table::new\<close> gives the new table an identity of its own.\<close>

definition table_new :: "tx_context \<Rightarrow> 'v table \<times> tx_context" where
  "table_new ctx = (Map.empty, snd (object_new ctx))"

text \<open>\<^verbatim>\<open>object::id_to_bytes\<close>: the 32 bytes of the identity, most significant first.\<close>

definition id_to_bytes :: "ID \<Rightarrow> u8 list" where
  "id_to_bytes a = map (\<lambda>i. ucast (drop_bit (8 * (31 - i)) a)) [0..<32]"

section \<open>Module access_policy\<close>

text \<open>
  \<^verbatim>\<open>CollectionAccessPolicy\<close>. The fields \<^verbatim>\<open>id\<close> and \<^verbatim>\<open>owner\<close> are written
  \<open>p_id\<close> and \<open>p_owner\<close>, since the collection has fields of the same names.
\<close>

record CollectionAccessPolicy =
  p_id :: ID
  collection_id :: "ID option"
  p_owner :: address
  authorized_users :: "bool table"
  total_authorized :: u64

definition create_policy ::
  "ID \<Rightarrow> address \<Rightarrow> tx_context \<Rightarrow> CollectionAccessPolicy \<times> tx_context" where
  "create_policy cid own ctx =
     (let (uid, ctx1) = object_new ctx;
          (users, ctx2) = table_new ctx1 in
      (\<lparr>p_id = uid, collection_id = Some cid, p_owner = own,
        authorized_users = users, total_authorized = 0\<rparr>, ctx2))"

definition create_standalone_policy ::
  "tx_context \<Rightarrow> CollectionAccessPolicy \<times> tx_context" where
  "create_standalone_policy ctx =
     (let (uid, ctx1) = object_new ctx;
          (users, ctx2) = table_new ctx1 in
      (\<lparr>p_id = uid, collection_id = None, p_owner = sender ctx1,
        authorized_users = users, total_authorized = 0\<rparr>, ctx2))"

definition link_to_collection :: "CollectionAccessPolicy \<Rightarrow> ID \<Rightarrow> CollectionAccessPolicy" where
  "link_to_collection policy cid = policy\<lparr>collection_id := Some cid\<rparr>"

definition grant_access ::
  "CollectionAccessPolicy \<Rightarrow> address \<Rightarrow> error + CollectionAccessPolicy" where
  "grant_access policy user =
     (if \<not> table_contains (authorized_users policy) user then
        and_then (table_add (authorized_users policy) user True) (\<lambda>t.
        and_then (u64_add (total_authorized policy) 1) (\<lambda>n.
        Inr (policy\<lparr>authorized_users := t, total_authorized := n\<rparr>)))
      else Inr policy)"

function grant_access_batch_loop ::
  "CollectionAccessPolicy \<Rightarrow> address list \<Rightarrow> nat \<Rightarrow> error + CollectionAccessPolicy" where
  "grant_access_batch_loop policy users i =
     (if i < length users then
        and_then (borrow users i) (\<lambda>user.
        and_then
          (if \<not> table_contains (authorized_users policy) user then
             and_then (table_add (authorized_users policy) user True) (\<lambda>t.
             and_then (u64_add (total_authorized policy) 1) (\<lambda>n.
             Inr (policy\<lparr>authorized_users := t, total_authorized := n\<rparr>)))
           else Inr policy)
          (\<lambda>policy1. grant_access_batch_loop policy1 users (i + 1)))
      else Inr policy)"
  by pat_completeness auto
termination
  by (relation "measure (\<lambda>(policy, users, i). length users - i)") auto

definition grant_access_batch ::
  "CollectionAccessPolicy \<Rightarrow> address list \<Rightarrow> error + CollectionAccessPolicy" where
  "grant_access_batch policy users = grant_access_batch_loop policy users 0"

definition revoke_access ::
  "CollectionAccessPolicy \<Rightarrow> address \<Rightarrow> tx_context \<Rightarrow> error + CollectionAccessPolicy" where
  "revoke_access policy user ctx =
     (if p_owner policy \<noteq> sender ctx then Inl AP_ENotOwner
      else if \<not> table_contains (authorized_users policy) user then Inl AP_ENoAccess
      else
        and_then (table_remove (authorized_users policy) user) (\<lambda>t.
        and_then (u64_sub (total_authorized policy) 1) (\<lambda>n.
        Inr (policy\<lparr>authorized_users := t, total_authorized := n\<rparr>))))"

function revoke_access_batch_loop ::
  "CollectionAccessPolicy \<Rightarrow> address list \<Rightarrow> nat \<Rightarrow> error + CollectionAccessPolicy" where
  "revoke_access_batch_loop policy users i =
     (if i < length users then
        and_then (borrow users i) (\<lambda>user.
        and_then
          (if table_contains (authorized_users policy) user then
             and_then (table_remove (authorized_users policy) user) (\<lambda>t.
             and_then (u64_sub (total_authorized policy) 1) (\<lambda>n.
             Inr (policy\<lparr>authorized_users := t, total_authorized := n\<rparr>)))
           else Inr policy)
          (\<lambda>policy1. revoke_access_batch_loop policy1 users (i + 1)))
      else Inr policy)"
  by pat_completeness auto
termination
  by (relation "measure (\<lambda>(policy, users, i). length users - i)") auto

definition revoke_access_batch ::
  "CollectionAccessPolicy \<Rightarrow> address list \<Rightarrow> tx_context \<Rightarrow> error + CollectionAccessPolicy" where
  "revoke_access_batch policy users ctx =
     (if p_owner policy \<noteq> sender ctx then Inl AP_ENotOwner
      else revoke_access_batch_loop policy users 0)"

definition transfer_ownership ::
  "CollectionAccessPolicy \<Rightarrow> address \<Rightarrow> tx_context \<Rightarrow> error + CollectionAccessPolicy" where
  "transfer_ownership policy new_owner ctx =
     (if p_owner policy \<noteq> sender ctx then Inl AP_ENotOwner
      else Inr (policy\<lparr>p_owner := new_owner\<rparr>))"

definition can_decrypt :: "CollectionAccessPolicy \<Rightarrow> address \<Rightarrow> bool" where
  "can_decrypt policy requester =
     (if requester = p_owner policy then True
      else if table_contains (authorized_users policy) requester then True
      else False)"

function is_prefix_loop :: "u8 list \<Rightarrow> u8 list \<Rightarrow> nat \<Rightarrow> error + bool" where
  "is_prefix_loop prefix data i =
     (if i < length prefix then
        and_then (borrow prefix i) (\<lambda>a.
        and_then (borrow data i) (\<lambda>b.
        if a \<noteq> b then Inr False else is_prefix_loop prefix data (i + 1)))
      else Inr True)"
  by pat_completeness auto
termination
  by (relation "measure (\<lambda>(prefix, data, i). length prefix - i)") auto

definition is_prefix :: "u8 list \<Rightarrow> u8 list \<Rightarrow> error + bool" where
  "is_prefix prefix data =
     (if length prefix > length data then Inr False
      else is_prefix_loop prefix data 0)"

definition seal_approve ::
  "u8 list \<Rightarrow> CollectionAccessPolicy \<Rightarrow> tx_context \<Rightarrow> error + unit" where
  "seal_approve rid policy ctx =
     (let requester = sender ctx;
          policy_id_bytes = id_to_bytes (p_id policy) in
      and_then (is_prefix policy_id_bytes rid) (\<lambda>ok.
      if \<not> ok then Inl AP_ENotAuthorized
      else if \<not> can_decrypt policy requester then Inl AP_ENotAuthorized
      else Inr ()))"

definition has_explicit_access :: "CollectionAccessPolicy \<Rightarrow> address \<Rightarrow> bool" where
  "has_explicit_access policy user = table_contains (authorized_users policy) user"

definition is_linked :: "CollectionAccessPolicy \<Rightarrow> bool" where
  "is_linked policy = (collection_id policy \<noteq> None)"

text \<open>
  The calls that mutate a policy, and the policies that exist: those the two constructors
  return, and those a call that did not abort leaves behind.
\<close>

datatype policy_call =
    GrantAccess address
  | GrantAccessBatch "address list"
  | RevokeAccess address tx_context
  | RevokeAccessBatch "address list" tx_context
  | TransferOwnership address tx_context
  | LinkToCollection ID

fun policy_step :: "CollectionAccessPolicy \<Rightarrow> policy_call \<Rightarrow> error + CollectionAccessPolicy" where
  "policy_step policy (GrantAccess user) = grant_access policy user"
| "policy_step policy (GrantAccessBatch users) = grant_access_batch policy users"
| "policy_step policy (RevokeAccess user ctx) = revoke_access policy user ctx"
| "policy_step policy (RevokeAccessBatch users ctx) = revoke_access_batch policy users ctx"
| "policy_step policy (TransferOwnership new_owner ctx) = transfer_ownership policy new_owner ctx"
| "policy_step policy (LinkToCollection cid) = Inr (link_to_collection policy cid)"

inductive reachable_policy :: "CollectionAccessPolicy \<Rightarrow> bool" where
  created: "reachable_policy (fst (create_policy cid own ctx))"
| standalone: "reachable_policy (fst (create_standalone_policy ctx))"
| step: "reachable_policy policy \<Longrightarrow> policy_step policy call = Inr policy1
           \<Longrightarrow> reachable_policy policy1"

fun run_policy_calls ::
  "CollectionAccessPolicy \<Rightarrow> policy_call list \<Rightarrow> error + CollectionAccessPolicy" where
  "run_policy_calls policy [] = Inr policy"
| "run_policy_calls policy (call # calls) =
     and_then (policy_step policy call) (\<lambda>policy1. run_policy_calls policy1 calls)"

text \<open>The calls that put a given principal into authorized_users.\<close>

fun grants :: "address \<Rightarrow> policy_call \<Rightarrow> bool" where
  "grants p (GrantAccess user) = (user = p)"
| "grants p (GrantAccessBatch users) = (p \<in> set users)"
| "grants p call = False"

section \<open>Module collection\<close>

definition VISIBILITY_PUBLIC :: u8 where "VISIBILITY_PUBLIC = 0"
definition VISIBILITY_PRIVATE :: u8 where "VISIBILITY_PRIVATE = 1"
definition VISIBILITY_PAY_TO_SEE :: u8 where "VISIBILITY_PAY_TO_SEE = 2"
definition VISIBILITY_UNLISTED :: u8 where "VISIBILITY_UNLISTED = 3"

record PlatformConfig =
  pc_id :: ID
  platform_address :: address
  purchase_fee_bps :: u64
  tip_fee_bps :: u64

text \<open>\<^verbatim>\<open>FileRef\<close>; its \<^verbatim>\<open>name\<close> and \<^verbatim>\<open>is_encrypted\<close> are written \<open>f_name\<close>, \<open>f_is_encrypted\<close>.\<close>

record FileRef =
  blob_id :: "u8 list"
  f_name :: "u8 list"
  content_type :: "u8 list"
  size_bytes :: u64
  f_is_encrypted :: bool

text \<open>\<^verbatim>\<open>Collection\<close>, fields in the order of the source; \<^verbatim>\<open>id\<close> is written \<open>c_id\<close>.\<close>

record Collection =
  c_id :: ID
  owner :: address
  created_at :: u64
  name :: "u8 list"
  description :: "u8 list"
  category :: "u8 list"
  tags :: "u8 list list"
  cover_image_blob_ids :: "u8 list list"
  files :: "FileRef list"
  visibility :: u8
  price :: u64
  purchase_count :: u64
  tip_count :: u64
  total_earnings :: u64
  total_tips :: u64
  is_encrypted :: bool
  encryption_key_hash :: "u8 list"
  access_policy_id :: "ID option"
  is_deleted :: bool

text \<open>\<^verbatim>\<open>AccessToken\<close>, with \<open>t_\<close> on the field names it shares with the other structs.\<close>

record AccessToken =
  t_id :: ID
  t_collection_id :: ID
  t_owner :: address
  purchased_at :: u64

text \<open>
  A \<^verbatim>\<open>Coin<SUI>\<close> is its value. \<open>coin_split\<close> returns the coin that remains and the coin
  split off, which is a new object and takes a fresh identity from the context.
  A transfer is recorded as the pair of what is sent and the recipient.
\<close>

datatype coin = Coin (coin_value: u64)

definition coin_split :: "coin \<Rightarrow> u64 \<Rightarrow> tx_context \<Rightarrow> error + (coin \<times> coin \<times> tx_context)" where
  "coin_split c amount ctx =
     (let (uid, ctx1) = object_new ctx in
      if coin_value c \<ge> amount then Inr (Coin (coin_value c - amount), Coin amount, ctx1)
      else Inl ENotEnough)"

definition destroy_zero :: "coin \<Rightarrow> error + unit" where
  "destroy_zero c = (if coin_value c = 0 then Inr () else Inl ENonZero)"

type_synonym coin_transfers = "(coin \<times> address) list"

definition init :: "tx_context \<Rightarrow> PlatformConfig \<times> tx_context" where
  "init ctx =
     (let (uid, ctx1) = object_new ctx in
      (\<lparr>pc_id = uid, platform_address = sender ctx1,
        purchase_fee_bps = 250, tip_fee_bps = 100\<rparr>, ctx1))"

text \<open>The loop that builds the file manifest, shared by the two creation entry points.\<close>

function create_collection_loop ::
  "u8 list list \<Rightarrow> u8 list list \<Rightarrow> u8 list list \<Rightarrow> u64 list \<Rightarrow> bool list
     \<Rightarrow> FileRef list \<Rightarrow> nat \<Rightarrow> error + FileRef list" where
  "create_collection_loop blob_ids file_names content_types file_sizes is_encrypted_flags fs i =
     (if i < length blob_ids then
        and_then (borrow blob_ids i) (\<lambda>b.
        and_then (borrow file_names i) (\<lambda>n.
        and_then (borrow content_types i) (\<lambda>t.
        and_then (borrow file_sizes i) (\<lambda>s.
        and_then (borrow is_encrypted_flags i) (\<lambda>e.
        let file_ref = \<lparr>blob_id = b, f_name = n, content_type = t,
                          size_bytes = s, f_is_encrypted = e\<rparr> in
        create_collection_loop blob_ids file_names content_types file_sizes is_encrypted_flags
          (fs @ [file_ref]) (i + 1))))))
      else Inr fs)"
  by pat_completeness auto
termination
  by (relation "measure (\<lambda>(b, n, t, s, e, fs, i). length b - i)") auto

definition create_collection ::
  "u8 list \<Rightarrow> u8 list \<Rightarrow> u8 list \<Rightarrow> u8 list list \<Rightarrow> u8 list list
     \<Rightarrow> u8 list list \<Rightarrow> u8 list list \<Rightarrow> u8 list list \<Rightarrow> u64 list \<Rightarrow> bool list
     \<Rightarrow> u8 \<Rightarrow> u64 \<Rightarrow> bool \<Rightarrow> u8 list \<Rightarrow> tx_context
     \<Rightarrow> error + (Collection \<times> CollectionAccessPolicy option \<times> tx_context)" where
  "create_collection nm descr categ tgs covers blob_ids file_names content_types file_sizes
       is_encrypted_flags vis pr enc key_hash ctx =
     and_then
       (create_collection_loop blob_ids file_names content_types file_sizes is_encrypted_flags [] 0)
       (\<lambda>fs.
        let (uid, ctx1) = object_new ctx;
            collection = \<lparr>c_id = uid, owner = sender ctx1, created_at = epoch_timestamp_ms ctx1,
              name = nm, description = descr, category = categ, tags = tgs,
              cover_image_blob_ids = covers, files = fs, visibility = vis, price = pr,
              purchase_count = 0, tip_count = 0, total_earnings = 0, total_tips = 0,
              is_encrypted = enc, encryption_key_hash = key_hash,
              access_policy_id = None, is_deleted = False\<rparr>;
            cid = c_id collection
        in if enc then
             let (policy, ctx2) = create_policy cid (sender ctx1) ctx1;
                 policy_id = p_id policy
             in Inr (collection\<lparr>access_policy_id := Some policy_id\<rparr>, Some policy, ctx2)
           else Inr (collection, None, ctx1))"

definition create_collection_with_policy ::
  "u8 list \<Rightarrow> u8 list \<Rightarrow> u8 list \<Rightarrow> u8 list list \<Rightarrow> u8 list list
     \<Rightarrow> u8 list list \<Rightarrow> u8 list list \<Rightarrow> u8 list list \<Rightarrow> u64 list \<Rightarrow> bool list
     \<Rightarrow> u8 \<Rightarrow> u64 \<Rightarrow> bool \<Rightarrow> u8 list \<Rightarrow> CollectionAccessPolicy \<Rightarrow> tx_context
     \<Rightarrow> error + (Collection \<times> CollectionAccessPolicy \<times> tx_context)" where
  "create_collection_with_policy nm descr categ tgs covers blob_ids file_names content_types
       file_sizes is_encrypted_flags vis pr enc key_hash policy ctx =
     and_then
       (create_collection_loop blob_ids file_names content_types file_sizes is_encrypted_flags [] 0)
       (\<lambda>fs.
        let (uid, ctx1) = object_new ctx;
            collection = \<lparr>c_id = uid, owner = sender ctx1, created_at = epoch_timestamp_ms ctx1,
              name = nm, description = descr, category = categ, tags = tgs,
              cover_image_blob_ids = covers, files = fs, visibility = vis, price = pr,
              purchase_count = 0, tip_count = 0, total_earnings = 0, total_tips = 0,
              is_encrypted = enc, encryption_key_hash = key_hash,
              access_policy_id = Some (p_id policy), is_deleted = False\<rparr>;
            cid = c_id collection;
            policy1 = link_to_collection policy cid
        in Inr (collection, policy1, ctx1))"

definition update_collection ::
  "Collection \<Rightarrow> u8 list \<Rightarrow> u8 list \<Rightarrow> u8 list \<Rightarrow> u8 list list \<Rightarrow> u8 \<Rightarrow> u64
     \<Rightarrow> tx_context \<Rightarrow> error + Collection" where
  "update_collection collection nm descr categ tgs vis pr ctx =
     (if owner collection \<noteq> sender ctx then Inl ENotOwner
      else if is_deleted collection then Inl ECollectionDeleted
      else Inr (collection\<lparr>name := nm, description := descr, category := categ,
                  tags := tgs, visibility := vis, price := pr\<rparr>))"

definition delete_collection :: "Collection \<Rightarrow> tx_context \<Rightarrow> error + Collection" where
  "delete_collection collection ctx =
     (if owner collection \<noteq> sender ctx then Inl ENotOwner
      else if is_deleted collection then Inl ECollectionDeleted
      else Inr (collection\<lparr>is_deleted := True\<rparr>))"

text \<open>
  The purchase and tip entry points return the updated collection (and policy), the coin
  transfers in the order they are made, the access token with its recipient, and the
  context.
\<close>

definition purchase_access ::
  "Collection \<Rightarrow> PlatformConfig \<Rightarrow> coin \<Rightarrow> tx_context
     \<Rightarrow> error + (Collection \<times> coin_transfers \<times> (AccessToken \<times> address) \<times> tx_context)" where
  "purchase_access collection platform_config payment ctx =
     (if is_deleted collection then Inl ECollectionDeleted
      else if visibility collection \<noteq> VISIBILITY_PAY_TO_SEE then Inl EInvalidPrice
      else if is_encrypted collection then Inl EInvalidPrice
      else
        let payment_value = coin_value payment in
        if \<not> payment_value \<ge> price collection then Inl EInsufficientPayment
        else
          and_then (u64_mul (price collection) (purchase_fee_bps platform_config)) (\<lambda>product.
          and_then (u64_div product 10000) (\<lambda>platform_fee.
          and_then (u64_sub (price collection) platform_fee) (\<lambda>creator_amount.
          and_then (coin_split payment creator_amount ctx) (\<lambda>(payment_coin1, creator_payment, ctx1).
          and_then (coin_split payment_coin1 platform_fee ctx1) (\<lambda>(payment_coin2, platform_payment, ctx2).
          let sent = [(creator_payment, owner collection),
                      (platform_payment, platform_address platform_config)] in
          and_then
            (if coin_value payment_coin2 > 0 then Inr (sent @ [(payment_coin2, sender ctx2)])
             else and_then (destroy_zero payment_coin2) (\<lambda>u. Inr sent))
            (\<lambda>sent1.
          and_then (u64_add (total_earnings collection) (price collection)) (\<lambda>earnings.
          and_then (u64_add (purchase_count collection) 1) (\<lambda>purchases.
          let collection1 = collection\<lparr>total_earnings := earnings, purchase_count := purchases\<rparr>;
              (uid, ctx3) = object_new ctx2;
              access_token = \<lparr>t_id = uid, t_collection_id = c_id collection1,
                               t_owner = sender ctx3, purchased_at = epoch_timestamp_ms ctx3\<rparr>
          in Inr (collection1, sent1, (access_token, sender ctx3), ctx3))))))))))"

definition purchase_access_encrypted ::
  "Collection \<Rightarrow> CollectionAccessPolicy \<Rightarrow> PlatformConfig \<Rightarrow> coin \<Rightarrow> tx_context
     \<Rightarrow> error + (Collection \<times> CollectionAccessPolicy \<times> coin_transfers
                  \<times> (AccessToken \<times> address) \<times> tx_context)" where
  "purchase_access_encrypted collection policy platform_config payment ctx =
     (if is_deleted collection then Inl ECollectionDeleted
      else if visibility collection \<noteq> VISIBILITY_PAY_TO_SEE then Inl EInvalidPrice
      else if \<not> is_encrypted collection then Inl EInvalidPrice
      else
        let payment_value = coin_value payment in
        if \<not> payment_value \<ge> price collection then Inl EInsufficientPayment
        else
          and_then (u64_mul (price collection) (purchase_fee_bps platform_config)) (\<lambda>product.
          and_then (u64_div product 10000) (\<lambda>platform_fee.
          and_then (u64_sub (price collection) platform_fee) (\<lambda>creator_amount.
          and_then (coin_split payment creator_amount ctx) (\<lambda>(payment_coin1, creator_payment, ctx1).
          and_then (coin_split payment_coin1 platform_fee ctx1) (\<lambda>(payment_coin2, platform_payment, ctx2).
          let sent = [(creator_payment, owner collection),
                      (platform_payment, platform_address platform_config)] in
          and_then
            (if coin_value payment_coin2 > 0 then Inr (sent @ [(payment_coin2, sender ctx2)])
             else and_then (destroy_zero payment_coin2) (\<lambda>u. Inr sent))
            (\<lambda>sent1.
          and_then (u64_add (total_earnings collection) (price collection)) (\<lambda>earnings.
          and_then (u64_add (purchase_count collection) 1) (\<lambda>purchases.
          let collection1 = collection\<lparr>total_earnings := earnings, purchase_count := purchases\<rparr> in
          and_then (grant_access policy (sender ctx2)) (\<lambda>policy1.
          let (uid, ctx3) = object_new ctx2;
              access_token = \<lparr>t_id = uid, t_collection_id = c_id collection1,
                               t_owner = sender ctx3, purchased_at = epoch_timestamp_ms ctx3\<rparr>
          in Inr (collection1, policy1, sent1, (access_token, sender ctx3), ctx3)))))))))))"

definition tip_creator ::
  "Collection \<Rightarrow> PlatformConfig \<Rightarrow> coin \<Rightarrow> tx_context
     \<Rightarrow> error + (Collection \<times> coin_transfers \<times> tx_context)" where
  "tip_creator collection platform_config payment ctx =
     (if is_deleted collection then Inl ECollectionDeleted
      else
        let tip_amount = coin_value payment in
        and_then (u64_mul tip_amount (tip_fee_bps platform_config)) (\<lambda>product.
        and_then (u64_div product 10000) (\<lambda>platform_fee.
        and_then (u64_sub tip_amount platform_fee) (\<lambda>creator_amount.
        and_then (coin_split payment creator_amount ctx) (\<lambda>(payment_coin1, creator_payment, ctx1).
        and_then (coin_split payment_coin1 platform_fee ctx1) (\<lambda>(payment_coin2, platform_payment, ctx2).
        let sent = [(creator_payment, owner collection),
                    (platform_payment, platform_address platform_config)] in
        and_then (destroy_zero payment_coin2) (\<lambda>u.
        and_then (u64_add (total_tips collection) tip_amount) (\<lambda>tips.
        and_then (u64_add (tip_count collection) 1) (\<lambda>count.
        Inr (collection\<lparr>total_tips := tips, tip_count := count\<rparr>, sent, ctx2))))))))))"

definition update_platform_address ::
  "PlatformConfig \<Rightarrow> address \<Rightarrow> tx_context \<Rightarrow> error + PlatformConfig" where
  "update_platform_address config new_address ctx =
     (if platform_address config \<noteq> sender ctx then Inl ENotOwner
      else Inr (config\<lparr>platform_address := new_address\<rparr>))"

definition update_platform_fees ::
  "PlatformConfig \<Rightarrow> u64 \<Rightarrow> u64 \<Rightarrow> tx_context \<Rightarrow> error + PlatformConfig" where
  "update_platform_fees config new_purchase_fee_bps new_tip_fee_bps ctx =
     (if platform_address config \<noteq> sender ctx then Inl ENotOwner
      else Inr (config\<lparr>purchase_fee_bps := new_purchase_fee_bps,
                         tip_fee_bps := new_tip_fee_bps\<rparr>))"

definition has_access :: "Collection \<Rightarrow> address \<Rightarrow> u64 \<Rightarrow> bool" where
  "has_access collection user current_time =
     (if is_deleted collection then False
      else if owner collection = user then True
      else if visibility collection = VISIBILITY_PUBLIC
              \<or> visibility collection = VISIBILITY_UNLISTED then True
      else if visibility collection = VISIBILITY_PRIVATE then False
      else False)"

definition collection_can_decrypt ::
  "Collection \<Rightarrow> CollectionAccessPolicy \<Rightarrow> address \<Rightarrow> u64 \<Rightarrow> bool" where
  "collection_can_decrypt collection policy user current_time =
     (if \<not> is_encrypted collection then has_access collection user current_time
      else has_access collection user current_time \<and> can_decrypt policy user)"

text \<open>
  The entry points that take a collection by mutable reference. A call that aborts
  leaves the collection as it was; \<open>exec_calls\<close> runs a sequence of transactions.
\<close>

datatype collection_call =
    UpdateCollection "u8 list" "u8 list" "u8 list" "u8 list list" u8 u64 tx_context
  | DeleteCollection tx_context
  | PurchaseAccess PlatformConfig coin tx_context
  | PurchaseAccessEncrypted CollectionAccessPolicy PlatformConfig coin tx_context
  | TipCreator PlatformConfig coin tx_context

fun collection_step :: "Collection \<Rightarrow> collection_call \<Rightarrow> error + Collection" where
  "collection_step c (UpdateCollection nm descr categ tgs vis pr ctx) =
     update_collection c nm descr categ tgs vis pr ctx"
| "collection_step c (DeleteCollection ctx) = delete_collection c ctx"
| "collection_step c (PurchaseAccess cfg payment ctx) =
     map_sum id fst (purchase_access c cfg payment ctx)"
| "collection_step c (PurchaseAccessEncrypted policy cfg payment ctx) =
     map_sum id fst (purchase_access_encrypted c policy cfg payment ctx)"
| "collection_step c (TipCreator cfg payment ctx) =
     map_sum id fst (tip_creator c cfg payment ctx)"

definition exec_call :: "Collection \<Rightarrow> collection_call \<Rightarrow> Collection" where
  "exec_call c call = (case collection_step c call of Inl e \<Rightarrow> c | Inr c1 \<Rightarrow> c1)"

definition exec_calls :: "Collection \<Rightarrow> collection_call list \<Rightarrow> Collection" where
  "exec_calls c calls = foldl exec_call c calls"

section \<open>Concrete data for the worked instances\<close>

definition ex_ctx :: tx_context where
  "ex_ctx = \<lparr>sender = 1, epoch_timestamp_ms = 1000,
              fresh_id = (\<lambda>n. of_nat n + 100), ids_created = 0\<rparr>"

definition ex_policy :: CollectionAccessPolicy where
  "ex_policy = \<lparr>p_id = 100, collection_id = Some 7, p_owner = 1,
                 authorized_users = Map.empty, total_authorized = 0\<rparr>"

definition ex_config :: PlatformConfig where
  "ex_config = \<lparr>pc_id = 3, platform_address = 8, purchase_fee_bps = 250, tip_fee_bps = 100\<rparr>"

definition ex_collection :: Collection where
  "ex_collection = \<lparr>c_id = 50, owner = 9, created_at = 500,
     name = [110], description = [100], category = [99], tags = [[116]],
     cover_image_blob_ids = [[1, 2, 3]], files = [], visibility = 2, price = 1000,
     purchase_count = 0, tip_count = 0, total_earnings = 0, total_tips = 0,
     is_encrypted = False, encryption_key_hash = [], access_policy_id = None,
     is_deleted = False\<rparr>"

section \<open>Basic facts about the substrate\<close>

lemma and_then_Inl [simp]: "and_then (Inl e) f = Inl e"
  by (simp add: and_then_def)

lemma and_then_Inr [simp]: "and_then (Inr x) f = f x"
  by (simp add: and_then_def)

lemma and_then_eq_Inr: "and_then m f = Inr y \<longleftrightarrow> (\<exists>x. m = Inr x \<and> f x = Inr y)"
  by (cases m) simp_all

lemma u64_add_Inr: "u64_add a b = Inr c \<Longrightarrow> unat c = unat a + unat b"
  by (auto simp: u64_add_def unat_add_lem [THEN iffD1] split: if_splits)

lemma u64_sub_Inr: "u64_sub a b = Inr c \<Longrightarrow> unat c = unat a - unat b \<and> unat b \<le> unat a"
  by (auto simp: u64_sub_def unat_sub word_le_nat_alt split: if_splits)

lemma u64_mul_Inr: "u64_mul a b = Inr c \<Longrightarrow> unat c = unat a * unat b"
  by (auto simp: u64_mul_def unat_mult_lem [THEN iffD1] split: if_splits)

declare grant_access_batch_loop.simps [simp del]
declare revoke_access_batch_loop.simps [simp del]
declare is_prefix_loop.simps [simp del]
declare create_collection_loop.simps [simp del]

section \<open>The cached counter of a policy\<close>

lemma card_dom_add:
  fixes t :: "bool table"
  assumes "t k = None"
  shows "card (dom (t(k \<mapsto> v))) = Suc (card (dom t))"
proof -
  have "k \<notin> dom t" using assms by auto
  then show ?thesis by simp
qed

lemma card_dom_remove:
  fixes t :: "bool table"
  assumes "t k \<noteq> None"
  shows "card (dom (t(k := None))) = card (dom t) - 1 \<and> 0 < card (dom t)"
proof -
  have "k \<in> dom t" using assms by auto
  then show ?thesis by (auto simp: card_gt_0_iff)
qed

lemma grant_access_counter:
  assumes inv: "unat (total_authorized p) = card (dom (authorized_users p))"
    and run: "grant_access p u = Inr p1"
  shows "unat (total_authorized p1) = card (dom (authorized_users p1))"
proof (cases "table_contains (authorized_users p) u")
  case True
  with inv run show ?thesis by (simp add: grant_access_def)
next
  case False
  then have none: "authorized_users p u = None" by (simp add: table_contains_def)
  from run False obtain n where
    n: "u64_add (total_authorized p) 1 = Inr n" and
    p1: "p1 = p\<lparr>authorized_users := (authorized_users p)(u \<mapsto> True), total_authorized := n\<rparr>"
    by (auto simp: grant_access_def table_add_def and_then_eq_Inr)
  from u64_add_Inr [OF n] have "unat n = Suc (unat (total_authorized p))" by simp
  with inv card_dom_add [of "authorized_users p" u True, OF none] show ?thesis
    by (simp add: p1)
qed

lemma remove_and_decrement_counter:
  assumes inv: "unat (total_authorized p) = card (dom (authorized_users p))"
    and present: "table_contains (authorized_users p) u"
    and run: "and_then (table_remove (authorized_users p) u) (\<lambda>t.
      and_then (u64_sub (total_authorized p) 1) (\<lambda>n.
      Inr (p\<lparr>authorized_users := t, total_authorized := n\<rparr>))) = Inr p1"
  shows "unat (total_authorized p1) = card (dom (authorized_users p1))"
proof -
  from present have some: "authorized_users p u \<noteq> None" by (simp add: table_contains_def)
  from run present obtain n where
    n: "u64_sub (total_authorized p) 1 = Inr n" and
    p1: "p1 = p\<lparr>authorized_users := (authorized_users p)(u := None), total_authorized := n\<rparr>"
    by (auto simp: table_remove_def and_then_eq_Inr)
  from u64_sub_Inr [OF n] have "unat n = unat (total_authorized p) - 1" by simp
  with inv card_dom_remove [of "authorized_users p" u, OF some] show ?thesis
    by (simp add: p1)
qed

lemma revoke_access_counter:
  assumes "unat (total_authorized p) = card (dom (authorized_users p))"
    and "revoke_access p u ctx = Inr p1"
  shows "unat (total_authorized p1) = card (dom (authorized_users p1))"
  using assms remove_and_decrement_counter [of p u p1]
  by (auto simp: revoke_access_def split: if_splits)

lemma grant_access_batch_loop_unfold:
  "grant_access_batch_loop policy users i =
     (if i < length users then
        and_then (grant_access policy (users ! i))
          (\<lambda>p1. grant_access_batch_loop p1 users (i + 1))
      else Inr policy)"
  by (subst grant_access_batch_loop.simps) (simp add: borrow_def grant_access_def)

lemma grant_access_batch_loop_counter:
  "unat (total_authorized p) = card (dom (authorized_users p))
     \<Longrightarrow> grant_access_batch_loop p users i = Inr p1
     \<Longrightarrow> unat (total_authorized p1) = card (dom (authorized_users p1))"
proof (induction "length users - i" arbitrary: p i)
  case 0
  then show ?case by (subst (asm) grant_access_batch_loop_unfold) simp
next
  case (Suc k)
  from Suc.hyps(2) have lt: "i < length users" by simp
  from Suc.prems(2) lt obtain p2 where
    g: "grant_access p (users ! i) = Inr p2" and
    r: "grant_access_batch_loop p2 users (i + 1) = Inr p1"
    by (subst (asm) grant_access_batch_loop_unfold) (auto simp: and_then_eq_Inr)
  have "k = length users - (i + 1)" using Suc.hyps(2) by simp
  from Suc.hyps(1) [OF this grant_access_counter [OF Suc.prems(1) g] r] show ?case .
qed

lemma revoke_access_batch_loop_counter:
  "unat (total_authorized p) = card (dom (authorized_users p))
     \<Longrightarrow> revoke_access_batch_loop p users i = Inr p1
     \<Longrightarrow> unat (total_authorized p1) = card (dom (authorized_users p1))"
proof (induction "length users - i" arbitrary: p i)
  case 0
  then show ?case by (subst (asm) revoke_access_batch_loop.simps) simp
next
  case (Suc k)
  from Suc.hyps(2) have lt: "i < length users" by simp
  have k: "k = length users - (i + 1)" using Suc.hyps(2) by simp
  show ?case
  proof (cases "table_contains (authorized_users p) (users ! i)")
    case True
    from Suc.prems(2) lt True obtain p2 where
      g: "and_then (table_remove (authorized_users p) (users ! i)) (\<lambda>t.
            and_then (u64_sub (total_authorized p) 1) (\<lambda>n.
            Inr (p\<lparr>authorized_users := t, total_authorized := n\<rparr>))) = Inr p2" and
      r: "revoke_access_batch_loop p2 users (i + 1) = Inr p1"
      by (subst (asm) revoke_access_batch_loop.simps) (auto simp: and_then_eq_Inr borrow_def)
    from Suc.hyps(1) [OF k remove_and_decrement_counter [OF Suc.prems(1) True g] r]
    show ?thesis .
  next
    case False
    from Suc.prems(2) lt False have
      r: "revoke_access_batch_loop p users (i + 1) = Inr p1"
      by (subst (asm) revoke_access_batch_loop.simps) (auto simp: and_then_eq_Inr borrow_def)
    from Suc.hyps(1) [OF k Suc.prems(1) r] show ?thesis .
  qed
qed

lemma policy_step_counter:
  assumes inv: "unat (total_authorized p) = card (dom (authorized_users p))"
    and run: "policy_step p call = Inr p1"
  shows "unat (total_authorized p1) = card (dom (authorized_users p1))"
proof (cases call)
  case (GrantAccess u)
  with inv run show ?thesis using grant_access_counter [of p u p1] by simp
next
  case (GrantAccessBatch us)
  with inv run show ?thesis
    using grant_access_batch_loop_counter [of p us 0 p1] by (simp add: grant_access_batch_def)
next
  case (RevokeAccess u ctx)
  with inv run show ?thesis using revoke_access_counter [of p u ctx p1] by simp
next
  case (RevokeAccessBatch us ctx)
  with inv run show ?thesis
    using revoke_access_batch_loop_counter [of p us 0 p1]
    by (auto simp: revoke_access_batch_def split: if_splits)
next
  case (TransferOwnership a ctx)
  with inv run show ?thesis by (auto simp: transfer_ownership_def split: if_splits)
next
  case (LinkToCollection cid)
  with inv run show ?thesis by (auto simp: link_to_collection_def)
qed

text \<open>
  C4. For every access policy that the constructors and any sequence of successful
  grant_access, grant_access_batch, revoke_access and revoke_access_batch calls (and of
  the two other mutators, transfer_ownership and link_to_collection) can produce, the
  cached counter total_authorized is the number of keys of authorized_users.
\<close>

theorem total_authorized_is_cardinality:
  "reachable_policy p \<Longrightarrow> unat (total_authorized p) = card (dom (authorized_users p))"
proof (induction rule: reachable_policy.induct)
  case (created cid own ctx)
  show ?case by (simp add: create_policy_def object_new_def table_new_def)
next
  case (standalone ctx)
  show ?case by (simp add: create_standalone_policy_def object_new_def table_new_def)
next
  case (step policy call policy1)
  then show ?case using policy_step_counter [of policy call policy1] by simp
qed

lemma ex_policy_created: "fst (create_policy 7 1 ex_ctx) = ex_policy"
  by (simp add: create_policy_def object_new_def table_new_def ex_ctx_def ex_policy_def)

theorem total_authorized_is_cardinality_witness:
  "reachable_policy (ex_policy\<lparr>authorized_users := [2 \<mapsto> True], total_authorized := 1\<rparr>)
   \<and> unat (total_authorized (ex_policy\<lparr>authorized_users := [2 \<mapsto> True], total_authorized := 1\<rparr>))
       = card (dom (authorized_users
           (ex_policy\<lparr>authorized_users := [2 \<mapsto> True], total_authorized := 1\<rparr>)))"
proof -
  have r0: "reachable_policy ex_policy"
    using reachable_policy.created [of 7 1 ex_ctx] by (simp only: ex_policy_created)
  have s: "policy_step ex_policy (GrantAccess 2)
             = Inr (ex_policy\<lparr>authorized_users := [2 \<mapsto> True], total_authorized := 1\<rparr>)"
    by (simp add: grant_access_def table_contains_def table_add_def u64_add_def ex_policy_def)
  have r1: "reachable_policy
              (ex_policy\<lparr>authorized_users := [2 \<mapsto> True], total_authorized := 1\<rparr>)"
    by (rule reachable_policy.step [OF r0 s])
  from r1 total_authorized_is_cardinality [OF r1] show ?thesis by (rule conjI)
qed

section \<open>The key-server entry point\<close>

lemma is_prefix_loop_nth:
  "length prefix \<le> length data \<Longrightarrow>
   is_prefix_loop prefix data i
     = Inr (\<forall>j. i \<le> j \<and> j < length prefix \<longrightarrow> prefix ! j = data ! j)"
proof (induction "length prefix - i" arbitrary: i)
  case 0
  then have "\<not> i < length prefix" by simp
  then show ?case by (subst is_prefix_loop.simps) auto
next
  case (Suc k)
  from Suc.hyps(2) have lt: "i < length prefix" by simp
  have k: "k = length prefix - (i + 1)" using Suc.hyps(2) by simp
  have split: "\<And>j. (i \<le> j) = (j = i \<or> i + 1 \<le> j)" by auto
  have all: "(\<forall>j. i \<le> j \<and> j < length prefix \<longrightarrow> prefix ! j = data ! j)
          = (prefix ! i = data ! i
             \<and> (\<forall>j. i + 1 \<le> j \<and> j < length prefix \<longrightarrow> prefix ! j = data ! j))"
    using lt by (subst split) blast
  have step: "is_prefix_loop prefix data i =
     (if prefix ! i \<noteq> data ! i then Inr False else is_prefix_loop prefix data (i + 1))"
    using lt Suc.prems by (subst is_prefix_loop.simps) (simp add: borrow_def)
  show ?case
    unfolding step all Suc.hyps(1) [OF k Suc.prems] by simp
qed

lemma is_prefix_take: "is_prefix prefix data = Inr (take (length prefix) data = prefix)"
proof (cases "length prefix \<le> length data")
  case True
  have "(\<forall>j. 0 \<le> j \<and> j < length prefix \<longrightarrow> prefix ! j = data ! j)
          = (take (length prefix) data = prefix)"
    using True by (simp add: list_eq_iff_nth_eq min_def) metis
  with True is_prefix_loop_nth [OF True, of 0] show ?thesis
    by (simp add: is_prefix_def)
next
  case False
  have "length (take (length prefix) data) \<le> length data" by simp
  with False have "take (length prefix) data \<noteq> prefix" by auto
  with False show ?thesis by (simp add: is_prefix_def)
qed

lemma take_eq_iff_append: "(take (length p) d = p) = (\<exists>rest. d = p @ rest)"
  by (metis append_eq_conv_conj append_take_drop_id)

lemma can_decrypt_iff:
  "can_decrypt policy a = (a = p_owner policy \<or> a \<in> dom (authorized_users policy))"
  by (auto simp: can_decrypt_def table_contains_def)

text \<open>
  C5. seal_approve accepts exactly when the request id starts with the bytes of the
  policy's own id and can_decrypt holds for the sender, that is, the sender is the owner
  or a key of authorized_users; in every other case it aborts with ENotAuthorized.
  Nothing else enters the decision.
\<close>

theorem seal_approve_accepts_iff:
  "seal_approve rid policy ctx =
     (if (\<exists>rest. rid = id_to_bytes (p_id policy) @ rest) \<and> can_decrypt policy (sender ctx)
      then Inr () else Inl AP_ENotAuthorized)
   \<and> can_decrypt policy (sender ctx)
       = (sender ctx = p_owner policy \<or> sender ctx \<in> dom (authorized_users policy))"
proof -
  have pre: "is_prefix (id_to_bytes (p_id policy)) rid
      = Inr (\<exists>rest. rid = id_to_bytes (p_id policy) @ rest)"
    by (simp add: is_prefix_take take_eq_iff_append)
  have run: "seal_approve rid policy ctx =
     (if (\<exists>rest. rid = id_to_bytes (p_id policy) @ rest) \<and> can_decrypt policy (sender ctx)
      then Inr () else Inl AP_ENotAuthorized)"
    unfolding seal_approve_def Let_def pre by simp
  from run can_decrypt_iff [of policy "sender ctx"] show ?thesis by (rule conjI)
qed

theorem seal_approve_accepts_iff_witness:
  "seal_approve (id_to_bytes 100 @ [1, 2]) ex_policy ex_ctx = Inr ()
   \<and> seal_approve (id_to_bytes 100 @ [1, 2]) ex_policy (ex_ctx\<lparr>sender := 5\<rparr>)
       = Inl AP_ENotAuthorized
   \<and> seal_approve [] ex_policy ex_ctx = Inl AP_ENotAuthorized"
proof -
  have len: "length (id_to_bytes a) = 32" for a by (simp add: id_to_bytes_def)
  have ne: "id_to_bytes (100 :: ID) \<noteq> []"
    using len [of 100] by auto
  show ?thesis
    using seal_approve_accepts_iff [of "id_to_bytes 100 @ [1, 2]" ex_policy ex_ctx]
      seal_approve_accepts_iff [of "id_to_bytes 100 @ [1, 2]" ex_policy "ex_ctx\<lparr>sender := 5\<rparr>"]
      seal_approve_accepts_iff [of "[]" ex_policy ex_ctx] ne
    by (simp add: ex_policy_def ex_ctx_def)
qed

section \<open>Revocation\<close>

lemma grant_access_absent:
  "grant_access policy u = Inr policy1 \<Longrightarrow> u \<noteq> p \<Longrightarrow> authorized_users policy p = None
     \<Longrightarrow> authorized_users policy1 p = None"
  by (auto simp: grant_access_def table_add_def and_then_eq_Inr split: if_splits)

lemma grant_access_batch_loop_absent:
  "grant_access_batch_loop policy users i = Inr policy1 \<Longrightarrow> p \<notin> set users
     \<Longrightarrow> authorized_users policy p = None \<Longrightarrow> authorized_users policy1 p = None"
proof (induction "length users - i" arbitrary: policy i)
  case 0
  then show ?case by (subst (asm) grant_access_batch_loop_unfold) simp
next
  case (Suc k)
  from Suc.hyps(2) have lt: "i < length users" by simp
  from Suc.prems(1) lt obtain p2 where
    g: "grant_access policy (users ! i) = Inr p2" and
    r: "grant_access_batch_loop p2 users (i + 1) = Inr policy1"
    by (subst (asm) grant_access_batch_loop_unfold) (auto simp: and_then_eq_Inr)
  from lt Suc.prems(2) have ne: "users ! i \<noteq> p" by auto
  have k: "k = length users - (i + 1)" using Suc.hyps(2) by simp
  from Suc.hyps(1) [OF k r Suc.prems(2) grant_access_absent [OF g ne Suc.prems(3)]]
  show ?case .
qed

lemma revoke_access_batch_loop_absent:
  "revoke_access_batch_loop policy users i = Inr policy1
     \<Longrightarrow> authorized_users policy p = None \<Longrightarrow> authorized_users policy1 p = None"
proof (induction "length users - i" arbitrary: policy i)
  case 0
  then show ?case by (subst (asm) revoke_access_batch_loop.simps) simp
next
  case (Suc k)
  from Suc.hyps(2) have lt: "i < length users" by simp
  have k: "k = length users - (i + 1)" using Suc.hyps(2) by simp
  have "revoke_access_batch_loop policy users i =
      and_then
        (if table_contains (authorized_users policy) (users ! i) then
           and_then (table_remove (authorized_users policy) (users ! i)) (\<lambda>t.
           and_then (u64_sub (total_authorized policy) 1) (\<lambda>n.
           Inr (policy\<lparr>authorized_users := t, total_authorized := n\<rparr>)))
         else Inr policy)
        (\<lambda>p1. revoke_access_batch_loop p1 users (i + 1))"
    using lt by (subst revoke_access_batch_loop.simps) (simp add: borrow_def)
  with Suc.prems(1) obtain p2 where
    one: "(if table_contains (authorized_users policy) (users ! i) then
           and_then (table_remove (authorized_users policy) (users ! i)) (\<lambda>t.
           and_then (u64_sub (total_authorized policy) 1) (\<lambda>n.
           Inr (policy\<lparr>authorized_users := t, total_authorized := n\<rparr>)))
         else Inr policy) = Inr p2" and
    r: "revoke_access_batch_loop p2 users (i + 1) = Inr policy1"
    by (simp add: and_then_eq_Inr) blast
  from one Suc.prems(2) have a: "authorized_users p2 p = None"
    by (auto simp: and_then_eq_Inr table_remove_def split: if_splits)
  from Suc.hyps(1) [OF k r a] show ?case .
qed

lemma policy_step_absent:
  assumes "policy_step policy call = Inr policy1" and "\<not> grants p call"
    and "authorized_users policy p = None"
  shows "authorized_users policy1 p = None"
proof (cases call)
  case (GrantAccess u)
  with assms show ?thesis using grant_access_absent [of policy u policy1 p] by auto
next
  case (GrantAccessBatch us)
  with assms show ?thesis
    using grant_access_batch_loop_absent [of policy us 0 policy1 p]
    by (simp add: grant_access_batch_def)
next
  case (RevokeAccess u ctx)
  with assms show ?thesis
    by (auto simp: revoke_access_def table_remove_def and_then_eq_Inr split: if_splits)
next
  case (RevokeAccessBatch us ctx)
  with assms show ?thesis
    using revoke_access_batch_loop_absent [of policy us 0 policy1 p]
    by (auto simp: revoke_access_batch_def split: if_splits)
next
  case (TransferOwnership a ctx)
  with assms show ?thesis by (auto simp: transfer_ownership_def split: if_splits)
next
  case (LinkToCollection cid)
  with assms show ?thesis by (auto simp: link_to_collection_def)
qed

lemma run_policy_calls_absent:
  "run_policy_calls policy calls = Inr policy1 \<Longrightarrow> \<forall>call \<in> set calls. \<not> grants p call
     \<Longrightarrow> authorized_users policy p = None \<Longrightarrow> authorized_users policy1 p = None"
proof (induction calls arbitrary: policy)
  case Nil
  then show ?case by simp
next
  case (Cons call calls)
  from Cons.prems(1) obtain p2 where
    s: "policy_step policy call = Inr p2" and r: "run_policy_calls p2 calls = Inr policy1"
    by (auto simp: and_then_eq_Inr)
  from Cons.prems(2) have ng: "\<not> grants p call" and rest: "\<forall>c \<in> set calls. \<not> grants p c"
    by simp_all
  from Cons.IH [OF r rest policy_step_absent [OF s ng Cons.prems(3)]] show ?case .
qed

lemma revoke_access_removes:
  "revoke_access policy p ctx = Inr policy1 \<Longrightarrow>
     authorized_users policy1 p = None \<and> p_owner policy1 = p_owner policy"
  by (auto simp: revoke_access_def table_remove_def and_then_eq_Inr split: if_splits)

text \<open>
  C7 (amended). After a successful revoke_access of a principal, and after any further
  successful calls on the policy none of which grants that principal again, can_decrypt
  is false for the principal unless the principal is the owner of the policy. No access
  token enters can_decrypt, so a token that still exists changes nothing.
\<close>

theorem revoked_cannot_decrypt:
  assumes "revoke_access policy p ctx = Inr policy1"
    and "run_policy_calls policy1 calls = Inr policy2"
    and "\<forall>call \<in> set calls. \<not> grants p call"
    and "p \<noteq> p_owner policy2"
  shows "\<not> can_decrypt policy2 p"
proof -
  from revoke_access_removes [OF assms(1)] have "authorized_users policy1 p = None" by simp
  from run_policy_calls_absent [OF assms(2,3) this] assms(4)
  show ?thesis by (auto simp: can_decrypt_iff)
qed

theorem revoked_cannot_decrypt_witness:
  "revoke_access (ex_policy\<lparr>authorized_users := [2 \<mapsto> True], total_authorized := 1\<rparr>) 2 ex_ctx
     = Inr ex_policy
   \<and> run_policy_calls ex_policy [GrantAccess 3, LinkToCollection 9]
     = Inr (ex_policy\<lparr>collection_id := Some 9, authorized_users := [3 \<mapsto> True],
              total_authorized := 1\<rparr>)
   \<and> \<not> can_decrypt (ex_policy\<lparr>collection_id := Some 9, authorized_users := [3 \<mapsto> True],
              total_authorized := 1\<rparr>) 2"
proof -
  have r: "revoke_access (ex_policy\<lparr>authorized_users := [2 \<mapsto> True], total_authorized := 1\<rparr>)
             2 ex_ctx = Inr ex_policy"
    by (simp add: revoke_access_def table_contains_def table_remove_def u64_sub_def
        ex_policy_def ex_ctx_def)
  have c: "run_policy_calls ex_policy [GrantAccess 3, LinkToCollection 9]
     = Inr (ex_policy\<lparr>collection_id := Some 9, authorized_users := [3 \<mapsto> True],
              total_authorized := 1\<rparr>)"
    by (simp add: grant_access_def table_contains_def table_add_def u64_add_def
        link_to_collection_def ex_policy_def)
  have g: "\<forall>call \<in> set [GrantAccess 3, LinkToCollection 9]. \<not> grants 2 call" by simp
  have o: "2 \<noteq> p_owner (ex_policy\<lparr>collection_id := Some 9, authorized_users := [3 \<mapsto> True],
              total_authorized := 1\<rparr>)"
    by (simp add: ex_policy_def)
  from r c revoked_cannot_decrypt [OF r c g o] show ?thesis by simp
qed

theorem revoked_owner_can_decrypt_counterexample:
  "grant_access ex_policy 1
     = Inr (ex_policy\<lparr>authorized_users := [1 \<mapsto> True], total_authorized := 1\<rparr>)
   \<and> revoke_access (ex_policy\<lparr>authorized_users := [1 \<mapsto> True], total_authorized := 1\<rparr>) 1 ex_ctx
     = Inr ex_policy
   \<and> can_decrypt ex_policy 1"
  by (simp add: grant_access_def revoke_access_def table_contains_def table_add_def
      table_remove_def u64_add_def u64_sub_def can_decrypt_def ex_policy_def ex_ctx_def)

section \<open>Updating and deleting a collection\<close>

text \<open>
  C9 (amended). update_collection by the owner of a collection that is not deleted
  succeeds and overwrites exactly name, description, category, tags, visibility and price.
  Everything else keeps its value: the cover-image references (the entry point takes no
  argument for them), the file manifest, the four statistics, the encryption fields, the
  identity, owner, created_at and is_deleted.
\<close>

theorem update_collection_frame:
  assumes "owner c = sender ctx" and "\<not> is_deleted c"
  shows "\<exists>c1. update_collection c nm descr categ tgs vis pr ctx = Inr c1
    \<and> name c1 = nm \<and> description c1 = descr \<and> category c1 = categ \<and> tags c1 = tgs
    \<and> visibility c1 = vis \<and> price c1 = pr
    \<and> cover_image_blob_ids c1 = cover_image_blob_ids c
    \<and> files c1 = files c
    \<and> purchase_count c1 = purchase_count c \<and> tip_count c1 = tip_count c
    \<and> total_earnings c1 = total_earnings c \<and> total_tips c1 = total_tips c
    \<and> is_encrypted c1 = is_encrypted c \<and> encryption_key_hash c1 = encryption_key_hash c
    \<and> access_policy_id c1 = access_policy_id c
    \<and> c_id c1 = c_id c \<and> owner c1 = owner c \<and> created_at c1 = created_at c
    \<and> is_deleted c1 = is_deleted c"
  using assms by (simp add: update_collection_def)

theorem update_collection_frame_witness:
  "owner ex_collection = sender (ex_ctx\<lparr>sender := 9\<rparr>) \<and> \<not> is_deleted ex_collection
   \<and> (\<exists>c1. update_collection ex_collection [1] [2] [3] [[4]] 0 5 (ex_ctx\<lparr>sender := 9\<rparr>) = Inr c1
         \<and> name c1 = [1] \<and> price c1 = 5 \<and> cover_image_blob_ids c1 = [[1, 2, 3]])"
proof -
  have o: "owner ex_collection = sender (ex_ctx\<lparr>sender := 9\<rparr>)"
    by (simp add: ex_collection_def ex_ctx_def)
  have d: "\<not> is_deleted ex_collection" by (simp add: ex_collection_def)
  from update_collection_frame [OF o d, of "[1]" "[2]" "[3]" "[[4]]" 0 5]
  obtain c1 where "update_collection ex_collection [1] [2] [3] [[4]] 0 5 (ex_ctx\<lparr>sender := 9\<rparr>) = Inr c1"
    "name c1 = [1]" "price c1 = 5" "cover_image_blob_ids c1 = cover_image_blob_ids ex_collection"
    by blast
  then have "\<exists>c1. update_collection ex_collection [1] [2] [3] [[4]] 0 5 (ex_ctx\<lparr>sender := 9\<rparr>) = Inr c1
         \<and> name c1 = [1] \<and> price c1 = 5 \<and> cover_image_blob_ids c1 = [[1, 2, 3]]"
    by (auto simp: ex_collection_def)
  with o d show ?thesis by simp
qed

theorem update_keeps_cover_images_counterexample:
  "map_sum id name (update_collection ex_collection [] [] [] [] 0 0 (ex_ctx\<lparr>sender := 9\<rparr>)) = Inr []
   \<and> map_sum id cover_image_blob_ids
        (update_collection ex_collection [] [] [] [] 0 0 (ex_ctx\<lparr>sender := 9\<rparr>)) = Inr [[1, 2, 3]]
   \<and> cover_image_blob_ids ex_collection = [[1, 2, 3]]"
  by (simp add: update_collection_def ex_collection_def ex_ctx_def)

lemma deleted_step_rejects: "is_deleted c \<Longrightarrow> \<exists>e. collection_step c call = Inl e"
  by (cases call)
    (simp_all add: update_collection_def delete_collection_def purchase_access_def
      purchase_access_encrypted_def tip_creator_def)

lemma deleted_exec_call: "is_deleted c \<Longrightarrow> exec_call c call = c"
  using deleted_step_rejects [of c call] by (auto simp: exec_call_def)

lemma deleted_exec_calls: "is_deleted c \<Longrightarrow> exec_calls c calls = c"
  unfolding exec_calls_def by (induction calls) (simp_all add: deleted_exec_call)

text \<open>
  C3. On a collection whose is_deleted flag is set, purchase_access,
  purchase_access_encrypted, tip_creator, update_collection and delete_collection all
  abort, whatever the visibility and the other arguments; an aborted call changes
  nothing, so every sequence of such calls leaves the collection as it was, with the
  flag still set.
\<close>

theorem deleted_collection_rejects:
  assumes "is_deleted c"
  shows "purchase_access c cfg payment ctx = Inl ECollectionDeleted
    \<and> purchase_access_encrypted c policy cfg payment ctx = Inl ECollectionDeleted
    \<and> tip_creator c cfg payment ctx = Inl ECollectionDeleted
    \<and> update_collection c nm descr categ tgs vis pr ctx
        = Inl (if owner c = sender ctx then ECollectionDeleted else ENotOwner)
    \<and> delete_collection c ctx
        = Inl (if owner c = sender ctx then ECollectionDeleted else ENotOwner)
    \<and> exec_calls c calls = c
    \<and> is_deleted (exec_calls c calls)"
  using assms deleted_exec_calls [of c calls]
  by (simp add: update_collection_def delete_collection_def purchase_access_def
      purchase_access_encrypted_def tip_creator_def)

theorem deleted_collection_rejects_witness:
  "is_deleted (ex_collection\<lparr>is_deleted := True\<rparr>)
   \<and> tip_creator (ex_collection\<lparr>is_deleted := True\<rparr>) ex_config (Coin 500) ex_ctx
       = Inl ECollectionDeleted
   \<and> delete_collection (ex_collection\<lparr>is_deleted := True\<rparr>) (ex_ctx\<lparr>sender := 9\<rparr>)
       = Inl ECollectionDeleted
   \<and> exec_calls (ex_collection\<lparr>is_deleted := True\<rparr>)
        [DeleteCollection (ex_ctx\<lparr>sender := 9\<rparr>), TipCreator ex_config (Coin 500) ex_ctx,
         PurchaseAccess ex_config (Coin 1000) ex_ctx]
       = ex_collection\<lparr>is_deleted := True\<rparr>"
proof -
  have d: "is_deleted (ex_collection\<lparr>is_deleted := True\<rparr>)" by simp
  have o: "owner (ex_collection\<lparr>is_deleted := True\<rparr>) = sender (ex_ctx\<lparr>sender := 9\<rparr>)"
    by (simp add: ex_collection_def)
  from deleted_collection_rejects [OF d, of ex_config "Coin 500" ex_ctx]
    deleted_collection_rejects [OF d, of _ _ "ex_ctx\<lparr>sender := 9\<rparr>" _ _ _ _ _ _ _
      "[DeleteCollection (ex_ctx\<lparr>sender := 9\<rparr>), TipCreator ex_config (Coin 500) ex_ctx,
        PurchaseAccess ex_config (Coin 1000) ex_ctx]"] o d
  show ?thesis by simp
qed

section \<open>Creating a collection\<close>

lemma create_collection_loop_ok:
  assumes "length b \<le> length n" "length b \<le> length t" "length b \<le> length s"
    "length b \<le> length e"
  shows "i \<le> length b \<Longrightarrow> create_collection_loop b n t s e fs i
     = Inr (fs @ map (\<lambda>j. \<lparr>blob_id = b ! j, f_name = n ! j, content_type = t ! j,
                              size_bytes = s ! j, f_is_encrypted = e ! j\<rparr>) [i..<length b])"
proof (induction "length b - i" arbitrary: i fs)
  case 0
  then show ?case by (subst create_collection_loop.simps) simp
next
  case (Suc k)
  from Suc.hyps(2) have lt: "i < length b" by simp
  have k: "k = length b - (i + 1)" using Suc.hyps(2) by simp
  have le: "i + 1 \<le> length b" using lt by simp
  have step: "create_collection_loop b n t s e fs i =
      create_collection_loop b n t s e
        (fs @ [\<lparr>blob_id = b ! i, f_name = n ! i, content_type = t ! i,
                size_bytes = s ! i, f_is_encrypted = e ! i\<rparr>]) (i + 1)"
    using lt assms by (subst create_collection_loop.simps) (simp add: borrow_def)
  have up: "[i..<length b] = i # [i + 1..<length b]"
    using lt by (simp add: upt_conv_Cons)
  show ?case unfolding step Suc.hyps(1) [OF k le] up by simp
qed

lemma create_collection_loop_short:
  assumes "m = min (length n) (min (length t) (min (length s) (length e)))"
    and "m < length b"
  shows "i \<le> m \<Longrightarrow> create_collection_loop b n t s e fs i = Inl EIndexOutOfBounds"
proof (induction "m - i" arbitrary: i fs)
  case 0
  then have i: "i = m" by simp
  have lt: "i < length b" using assms(2) unfolding i .
  have "m = length n \<or> m = length t \<or> m = length s \<or> m = length e"
    unfolding assms(1) by (simp add: min_def)
  with i have "\<not> i < length n \<or> \<not> i < length t \<or> \<not> i < length s \<or> \<not> i < length e"
    by auto
  with lt show ?case
    by (subst create_collection_loop.simps) (auto simp: borrow_def)
next
  case (Suc k)
  from Suc.hyps(2) have im: "i < m" by simp
  have ltb: "i < length b" using im assms(2) by (rule less_trans)
  have "i < length n" "i < length t" "i < length s" "i < length e"
    using im unfolding assms(1) by simp_all
  with ltb have lt: "i < length b" "i < length n" "i < length t" "i < length s" "i < length e"
    by simp_all
  have k: "k = m - (i + 1)" using Suc.hyps(2) by simp
  have le: "i + 1 \<le> m" using im by simp
  have step: "create_collection_loop b n t s e fs i =
      create_collection_loop b n t s e
        (fs @ [\<lparr>blob_id = b ! i, f_name = n ! i, content_type = t ! i,
                size_bytes = s ! i, f_is_encrypted = e ! i\<rparr>]) (i + 1)"
    using lt by (subst create_collection_loop.simps) (simp add: borrow_def)
  show ?case unfolding step by (rule Suc.hyps(1) [OF k le])
qed

text \<open>
  C8 (amended). create_collection makes no comparison of the five lengths. It aborts, in
  the loop that precedes the creation of the collection object, exactly when one of
  file_names, content_types, file_sizes, is_encrypted_flags is shorter than blob_ids
  (the out-of-range borrow). Otherwise it succeeds and the manifest holds one FileRef for
  each entry of blob_ids, built from the entries at the same index, in input order;
  entries of the other four arrays beyond the length of blob_ids are ignored.
\<close>

theorem create_collection_lengths:
  "(length file_names < length blob_ids \<or> length content_types < length blob_ids
      \<or> length file_sizes < length blob_ids \<or> length is_encrypted_flags < length blob_ids
    \<longrightarrow> create_collection nm descr categ tgs covers blob_ids file_names content_types
          file_sizes is_encrypted_flags vis pr enc key_hash ctx = Inl EIndexOutOfBounds)
   \<and> (length blob_ids \<le> length file_names \<and> length blob_ids \<le> length content_types
      \<and> length blob_ids \<le> length file_sizes \<and> length blob_ids \<le> length is_encrypted_flags
    \<longrightarrow> (\<exists>c policy ctx1.
          create_collection nm descr categ tgs covers blob_ids file_names content_types
            file_sizes is_encrypted_flags vis pr enc key_hash ctx = Inr (c, policy, ctx1)
          \<and> files c = map (\<lambda>j. \<lparr>blob_id = blob_ids ! j, f_name = file_names ! j,
                                  content_type = content_types ! j,
                                  size_bytes = file_sizes ! j,
                                  f_is_encrypted = is_encrypted_flags ! j\<rparr>)
                          [0..<length blob_ids]
          \<and> length (files c) = length blob_ids))"
proof (intro conjI impI)
  assume short: "length file_names < length blob_ids \<or> length content_types < length blob_ids
      \<or> length file_sizes < length blob_ids \<or> length is_encrypted_flags < length blob_ids"
  define m where "m = min (length file_names) (min (length content_types)
      (min (length file_sizes) (length is_encrypted_flags)))"
  from short have "m < length blob_ids" by (auto simp: m_def)
  from create_collection_loop_short [OF m_def this, of 0 "[]"]
  show "create_collection nm descr categ tgs covers blob_ids file_names content_types
          file_sizes is_encrypted_flags vis pr enc key_hash ctx = Inl EIndexOutOfBounds"
    by (simp add: create_collection_def)
next
  assume long: "length blob_ids \<le> length file_names \<and> length blob_ids \<le> length content_types
      \<and> length blob_ids \<le> length file_sizes \<and> length blob_ids \<le> length is_encrypted_flags"
  then have loop: "create_collection_loop blob_ids file_names content_types file_sizes
      is_encrypted_flags [] 0
    = Inr (map (\<lambda>j. \<lparr>blob_id = blob_ids ! j, f_name = file_names ! j,
                      content_type = content_types ! j, size_bytes = file_sizes ! j,
                      f_is_encrypted = is_encrypted_flags ! j\<rparr>) [0..<length blob_ids])"
    using create_collection_loop_ok [of blob_ids file_names content_types file_sizes
        is_encrypted_flags 0 "[]"] by simp
  show "\<exists>c policy ctx1.
          create_collection nm descr categ tgs covers blob_ids file_names content_types
            file_sizes is_encrypted_flags vis pr enc key_hash ctx = Inr (c, policy, ctx1)
          \<and> files c = map (\<lambda>j. \<lparr>blob_id = blob_ids ! j, f_name = file_names ! j,
                                  content_type = content_types ! j,
                                  size_bytes = file_sizes ! j,
                                  f_is_encrypted = is_encrypted_flags ! j\<rparr>)
                          [0..<length blob_ids]
          \<and> length (files c) = length blob_ids"
    by (cases enc)
      (simp_all add: create_collection_def loop create_policy_def object_new_def table_new_def
        Let_def split: prod.splits)
qed

theorem create_collection_longer_arrays_counterexample:
  "map_sum id (files \<circ> fst)
     (create_collection [110] [] [] [] [] [] [[97]] [] [] [] 0 0 False [] ex_ctx) = Inr []
   \<and> length [[97 :: u8]] \<noteq> length ([] :: u8 list list)"
  by (simp add: create_collection_def create_collection_loop.simps object_new_def)

theorem create_collection_lengths_witness:
  "map_sum id (files \<circ> fst)
     (create_collection [110] [] [] [] [] [[1], [2]] [[97], [98]] [[3], [4]] [10, 20] [False, True]
        0 0 False [] ex_ctx)
     = Inr [\<lparr>blob_id = [1], f_name = [97], content_type = [3], size_bytes = 10,
               f_is_encrypted = False\<rparr>,
            \<lparr>blob_id = [2], f_name = [98], content_type = [4], size_bytes = 20,
               f_is_encrypted = True\<rparr>]
   \<and> create_collection [110] [] [] [] [] [[1], [2]] [[97]] [[3], [4]] [10, 20] [False, True]
        0 0 False [] ex_ctx = Inl EIndexOutOfBounds"
proof -
  have up: "[0..<2] = [0, 1]" by (simp add: upt_conv_Cons)
  from create_collection_lengths [of "[[97], [98]]" "[[1], [2]]" "[[3], [4]]" "[10, 20]"
      "[False, True]" "[110]" "[]" "[]" "[]" "[]" 0 0 False "[]" ex_ctx]
    create_collection_lengths [of "[[97]]" "[[1], [2]]" "[[3], [4]]" "[10, 20]"
      "[False, True]" "[110]" "[]" "[]" "[]" "[]" 0 0 False "[]" ex_ctx]
  show ?thesis by (auto simp: up)
qed

section \<open>Linking\<close>

text \<open>
  C1 (amended). link_to_collection has no failure path: it sets the back-reference to
  the collection it is given, whatever the policy was linked to before.
  create_collection_with_policy does not look at the existing link either: when it
  succeeds the policy's collection_id is the identity of the new collection, and it
  succeeds whenever the four other file arrays are at least as long as blob_ids.
\<close>

theorem link_overwrites:
  "link_to_collection policy b = policy\<lparr>collection_id := Some b\<rparr>
   \<and> (create_collection_with_policy nm descr categ tgs covers blob_ids file_names content_types
          file_sizes is_encrypted_flags vis pr enc key_hash policy ctx = Inr (c, policy1, ctx1)
      \<longrightarrow> c_id c = fresh_id ctx (ids_created ctx)
          \<and> policy1 = policy\<lparr>collection_id := Some (c_id c)\<rparr>
          \<and> access_policy_id c = Some (p_id policy))
   \<and> (length blob_ids \<le> length file_names \<and> length blob_ids \<le> length content_types
      \<and> length blob_ids \<le> length file_sizes \<and> length blob_ids \<le> length is_encrypted_flags
      \<longrightarrow> (\<exists>c ctx1. create_collection_with_policy nm descr categ tgs covers blob_ids file_names
            content_types file_sizes is_encrypted_flags vis pr enc key_hash policy ctx
          = Inr (c, policy\<lparr>collection_id := Some (c_id c)\<rparr>, ctx1)))"
proof -
  have link: "link_to_collection policy b = policy\<lparr>collection_id := Some b\<rparr>"
    by (simp add: link_to_collection_def)
  have run: "c_id c = fresh_id ctx (ids_created ctx)
          \<and> policy1 = policy\<lparr>collection_id := Some (c_id c)\<rparr>
          \<and> access_policy_id c = Some (p_id policy)"
    if "create_collection_with_policy nm descr categ tgs covers blob_ids file_names
      content_types file_sizes is_encrypted_flags vis pr enc key_hash policy ctx
    = Inr (c, policy1, ctx1)"
    using that
    by (auto simp: create_collection_with_policy_def and_then_eq_Inr object_new_def
        link_to_collection_def Let_def)
  have ok: "\<exists>c ctx1. create_collection_with_policy nm descr categ tgs covers blob_ids file_names
            content_types file_sizes is_encrypted_flags vis pr enc key_hash policy ctx
          = Inr (c, policy\<lparr>collection_id := Some (c_id c)\<rparr>, ctx1)"
    if "length blob_ids \<le> length file_names \<and> length blob_ids \<le> length content_types
      \<and> length blob_ids \<le> length file_sizes \<and> length blob_ids \<le> length is_encrypted_flags"
    using that create_collection_loop_ok [of blob_ids file_names content_types file_sizes
        is_encrypted_flags 0 "[]"]
    by (simp add: create_collection_with_policy_def object_new_def link_to_collection_def)
  from link run ok show ?thesis by blast
qed

theorem relink_overwrites_counterexample:
  "collection_id ex_policy = Some 7
   \<and> map_sum id (collection_id \<circ> fst \<circ> snd)
       (create_collection_with_policy [110] [] [] [] [] [] [] [] [] [] 0 0 True [] ex_policy ex_ctx)
     = Inr (Some 100)"
  by (simp add: create_collection_with_policy_def create_collection_loop.simps object_new_def
      link_to_collection_def ex_policy_def ex_ctx_def)

theorem link_overwrites_witness:
  "map_sum id (collection_id \<circ> fst \<circ> snd)
       (create_collection_with_policy [110] [] [] [] [] [] [] [] [] [] 0 0 True [] ex_policy ex_ctx)
     = Inr (Some (fresh_id ex_ctx (ids_created ex_ctx)))"
proof -
  from link_overwrites [of ex_policy 0 "[110]" "[]" "[]" "[]" "[]" "[]" "[]" "[]" "[]" "[]" 0 0 True
      "[]" ex_ctx ex_collection ex_policy ex_ctx]
  obtain c ctx1 where r: "create_collection_with_policy [110] [] [] [] [] [] [] [] [] [] 0 0 True []
      ex_policy ex_ctx = Inr (c, ex_policy\<lparr>collection_id := Some (c_id c)\<rparr>, ctx1)"
    by auto
  from link_overwrites [of ex_policy 0 "[110]" "[]" "[]" "[]" "[]" "[]" "[]" "[]" "[]" "[]" 0 0 True
      "[]" ex_ctx c "ex_policy\<lparr>collection_id := Some (c_id c)\<rparr>" ctx1] r
  have "c_id c = fresh_id ex_ctx (ids_created ex_ctx)" by simp
  with r show ?thesis by simp
qed

section \<open>Settlement\<close>

lemma fee_split:
  assumes "u64_mul amount bps = Inr product"
    and "u64_div product 10000 = Inr fee"
    and "u64_sub amount fee = Inr creator"
  shows "unat fee = unat amount * unat bps div 10000
    \<and> unat fee \<le> unat amount \<and> unat creator = unat amount - unat fee"
proof -
  from assms(2) have "fee = product div 10000" by (simp add: u64_div_def)
  then have "unat fee = unat product div 10000" by (simp add: unat_div)
  with u64_mul_Inr [OF assms(1)] u64_sub_Inr [OF assms(3)] show ?thesis by simp
qed

lemma coin_split_Inr:
  assumes "coin_split c a ctx = Inr (rest, part, ctx1)"
  shows "part = Coin a \<and> unat a \<le> unat (coin_value c)
    \<and> unat (coin_value rest) = unat (coin_value c) - unat a
    \<and> sender ctx1 = sender ctx"
  using assms
  by (auto simp: coin_split_def object_new_def word_le_nat_alt unat_sub split: if_splits)

lemma u64_pos_iff: "(0 < (w :: u64)) = (w \<noteq> 0)"
  by (simp add: word_greater_zero_iff)

lemma tip_creator_Inr:
  assumes "tip_creator c cfg payment ctx = Inr (c1, sent, ctx1)"
  shows "\<not> is_deleted c
    \<and> (\<exists>platform_fee creator_amount.
         unat platform_fee = unat (coin_value payment) * unat (tip_fee_bps cfg) div 10000
       \<and> unat creator_amount = unat (coin_value payment) - unat platform_fee
       \<and> unat creator_amount + unat platform_fee = unat (coin_value payment)
       \<and> sent = [(Coin creator_amount, owner c), (Coin platform_fee, platform_address cfg)])
    \<and> unat (tip_count c1) = unat (tip_count c) + 1
    \<and> unat (total_tips c1) = unat (total_tips c) + unat (coin_value payment)
    \<and> c1 = c\<lparr>total_tips := total_tips c1, tip_count := tip_count c1\<rparr>"
proof -
  from assms have nd: "\<not> is_deleted c"
    by (auto simp: tip_creator_def split: if_splits)
  with assms obtain product fee creator pc1 cp x1 pc2 pp x2 tips cnt where
    m: "u64_mul (coin_value payment) (tip_fee_bps cfg) = Inr product" and
    d: "u64_div product 10000 = Inr fee" and
    s: "u64_sub (coin_value payment) fee = Inr creator" and
    s1: "coin_split payment creator ctx = Inr (pc1, cp, x1)" and
    s2: "coin_split pc1 fee x1 = Inr (pc2, pp, x2)" and
    t: "u64_add (total_tips c) (coin_value payment) = Inr tips" and
    n: "u64_add (tip_count c) 1 = Inr cnt" and
    c1: "c1 = c\<lparr>total_tips := tips, tip_count := cnt\<rparr>" and
    sent: "sent = [(cp, owner c), (pp, platform_address cfg)]"
    by (auto simp: tip_creator_def Let_def and_then_eq_Inr split: prod.splits)
  from fee_split [OF m d s] coin_split_Inr [OF s1] coin_split_Inr [OF s2]
    u64_add_Inr [OF t] u64_add_Inr [OF n] nd c1 sent
  show ?thesis by auto
qed

lemma settlement_core:
  assumes le: "price c \<le> coin_value payment"
    and m: "u64_mul (price c) (purchase_fee_bps cfg) = Inr product"
    and d: "u64_div product 10000 = Inr fee"
    and s: "u64_sub (price c) fee = Inr creator"
    and s1: "coin_split payment creator ctx = Inr (pc1, cp, x1)"
    and s2: "coin_split pc1 fee x1 = Inr (pc2, pp, x2)"
    and r: "(if coin_value pc2 > 0
             then Inr ([(cp, owner c), (pp, platform_address cfg)] @ [(pc2, sender x2)])
             else and_then (destroy_zero pc2)
                    (\<lambda>u. Inr [(cp, owner c), (pp, platform_address cfg)])) = Inr sent"
    and e: "u64_add (total_earnings c) (price c) = Inr earnings"
    and n: "u64_add (purchase_count c) 1 = Inr purchases"
  shows "\<exists>platform_fee creator_amount refund.
         unat platform_fee = unat (price c) * unat (purchase_fee_bps cfg) div 10000
       \<and> unat creator_amount = unat (price c) - unat platform_fee
       \<and> unat refund = unat (coin_value payment) - unat (price c)
       \<and> unat creator_amount + unat platform_fee = unat (price c)
       \<and> unat creator_amount + unat platform_fee + unat refund = unat (coin_value payment)
       \<and> sent = [(Coin creator_amount, owner c), (Coin platform_fee, platform_address cfg)]
                  @ (if refund = 0 then [] else [(Coin refund, sender ctx)])
       \<and> unat purchases = unat (purchase_count c) + 1
       \<and> unat earnings = unat (total_earnings c) + unat (price c)"
proof -
  from le have le': "unat (price c) \<le> unat (coin_value payment)" by (simp add: word_le_nat_alt)
  note f = fee_split [OF m d s]
  note a = coin_split_Inr [OF s1]
  note b = coin_split_Inr [OF s2]
  have rest: "unat (coin_value pc2) = unat (coin_value payment) - unat (price c)"
    using f a b by simp
  have sent: "sent = [(Coin creator, owner c), (Coin fee, platform_address cfg)]
      @ (if coin_value pc2 = 0 then [] else [(Coin (coin_value pc2), sender ctx)])"
    using r a b by (auto simp: u64_pos_iff destroy_zero_def split: if_splits)
  show ?thesis
    apply (rule exI [of _ fee], rule exI [of _ creator], rule exI [of _ "coin_value pc2"])
    using f rest sent le' u64_add_Inr [OF e] u64_add_Inr [OF n] by simp
qed

lemma purchase_access_Inr:
  assumes "purchase_access c cfg payment ctx = Inr (c1, sent, tok, ctx1)"
  shows "\<not> is_deleted c \<and> visibility c = VISIBILITY_PAY_TO_SEE \<and> \<not> is_encrypted c
    \<and> unat (price c) \<le> unat (coin_value payment)
    \<and> (\<exists>platform_fee creator_amount refund.
         unat platform_fee = unat (price c) * unat (purchase_fee_bps cfg) div 10000
       \<and> unat creator_amount = unat (price c) - unat platform_fee
       \<and> unat refund = unat (coin_value payment) - unat (price c)
       \<and> unat creator_amount + unat platform_fee = unat (price c)
       \<and> unat creator_amount + unat platform_fee + unat refund = unat (coin_value payment)
       \<and> sent = [(Coin creator_amount, owner c), (Coin platform_fee, platform_address cfg)]
                  @ (if refund = 0 then [] else [(Coin refund, sender ctx)])
       \<and> unat (purchase_count c1) = unat (purchase_count c) + 1
       \<and> unat (total_earnings c1) = unat (total_earnings c) + unat (price c))"
proof -
  from assms have g: "\<not> is_deleted c" "visibility c = VISIBILITY_PAY_TO_SEE"
    "\<not> is_encrypted c" "price c \<le> coin_value payment"
    by (auto simp: purchase_access_def Let_def split: if_splits)
  with assms obtain product fee creator pc1 cp x1 pc2 pp x2 earnings purchases where
    m: "u64_mul (price c) (purchase_fee_bps cfg) = Inr product" and
    d: "u64_div product 10000 = Inr fee" and
    s: "u64_sub (price c) fee = Inr creator" and
    s1: "coin_split payment creator ctx = Inr (pc1, cp, x1)" and
    s2: "coin_split pc1 fee x1 = Inr (pc2, pp, x2)" and
    r: "(if coin_value pc2 > 0
             then Inr ([(cp, owner c), (pp, platform_address cfg)] @ [(pc2, sender x2)])
             else and_then (destroy_zero pc2)
                    (\<lambda>u. Inr [(cp, owner c), (pp, platform_address cfg)])) = Inr sent" and
    e: "u64_add (total_earnings c) (price c) = Inr earnings" and
    n: "u64_add (purchase_count c) 1 = Inr purchases" and
    c1: "c1 = c\<lparr>total_earnings := earnings, purchase_count := purchases\<rparr>"
    by (auto simp: purchase_access_def Let_def and_then_eq_Inr object_new_def
        simp del: append.simps split: prod.splits)
  from settlement_core [OF g(4) m d s s1 s2 r e n] g c1
  show ?thesis by (simp add: word_le_nat_alt)
qed

lemma purchase_access_encrypted_Inr:
  assumes "purchase_access_encrypted c policy cfg payment ctx = Inr (c1, policy1, sent, tok, ctx1)"
  shows "\<not> is_deleted c \<and> visibility c = VISIBILITY_PAY_TO_SEE \<and> is_encrypted c
    \<and> unat (price c) \<le> unat (coin_value payment)
    \<and> (\<exists>platform_fee creator_amount refund.
         unat platform_fee = unat (price c) * unat (purchase_fee_bps cfg) div 10000
       \<and> unat creator_amount = unat (price c) - unat platform_fee
       \<and> unat refund = unat (coin_value payment) - unat (price c)
       \<and> unat creator_amount + unat platform_fee = unat (price c)
       \<and> unat creator_amount + unat platform_fee + unat refund = unat (coin_value payment)
       \<and> sent = [(Coin creator_amount, owner c), (Coin platform_fee, platform_address cfg)]
                  @ (if refund = 0 then [] else [(Coin refund, sender ctx)])
       \<and> unat (purchase_count c1) = unat (purchase_count c) + 1
       \<and> unat (total_earnings c1) = unat (total_earnings c) + unat (price c))"
proof -
  from assms have g: "\<not> is_deleted c" "visibility c = VISIBILITY_PAY_TO_SEE"
    "is_encrypted c" "price c \<le> coin_value payment"
    by (auto simp: purchase_access_encrypted_def Let_def split: if_splits)
  with assms obtain product fee creator pc1 cp x1 pc2 pp x2 earnings purchases where
    m: "u64_mul (price c) (purchase_fee_bps cfg) = Inr product" and
    d: "u64_div product 10000 = Inr fee" and
    s: "u64_sub (price c) fee = Inr creator" and
    s1: "coin_split payment creator ctx = Inr (pc1, cp, x1)" and
    s2: "coin_split pc1 fee x1 = Inr (pc2, pp, x2)" and
    r: "(if coin_value pc2 > 0
             then Inr ([(cp, owner c), (pp, platform_address cfg)] @ [(pc2, sender x2)])
             else and_then (destroy_zero pc2)
                    (\<lambda>u. Inr [(cp, owner c), (pp, platform_address cfg)])) = Inr sent" and
    e: "u64_add (total_earnings c) (price c) = Inr earnings" and
    n: "u64_add (purchase_count c) 1 = Inr purchases" and
    c1: "c1 = c\<lparr>total_earnings := earnings, purchase_count := purchases\<rparr>"
    by (auto simp: purchase_access_encrypted_def Let_def and_then_eq_Inr object_new_def
        simp del: append.simps split: prod.splits)
  from settlement_core [OF g(4) m d s s1 s2 r e n] g c1
  show ?thesis by (simp add: word_le_nat_alt)
qed

lemma fee_within_amount:
  fixes a b :: nat
  assumes "b \<le> 10000"
  shows "a * b div 10000 \<le> a"
proof -
  from assms have "a * b \<le> a * 10000" by (rule mult_le_mono2)
  then have "a * b div 10000 \<le> a * 10000 div 10000" by (rule div_le_mono)
  then show ?thesis by simp
qed

lemma fee_chain_succeeds:
  assumes prod: "unat amount * unat bps < 2 ^ 64"
    and rate: "unat bps \<le> 10000"
    and enough: "amount \<le> coin_value payment"
  shows "\<exists>fee creator x1 x2.
      u64_mul amount bps = Inr (amount * bps)
    \<and> u64_div (amount * bps) 10000 = Inr fee
    \<and> u64_sub amount fee = Inr creator
    \<and> coin_split payment creator ctx = Inr (Coin (coin_value payment - creator), Coin creator, x1)
    \<and> coin_split (Coin (coin_value payment - creator)) fee x1
        = Inr (Coin (coin_value payment - amount), Coin fee, x2)
    \<and> sender x2 = sender ctx \<and> x2 = snd (object_new (snd (object_new ctx)))"
proof -
  define fee where "fee = amount * bps div 10000"
  define creator where "creator = amount - fee"
  have um: "unat (amount * bps) = unat amount * unat bps"
    using prod by (simp add: unat_mult_lem [THEN iffD1])
  have uf: "unat fee = unat amount * unat bps div 10000"
    by (simp add: fee_def unat_div um)
  have fle: "unat fee \<le> unat amount"
    unfolding uf by (rule fee_within_amount [OF rate])
  then have fle': "fee \<le> amount" by (simp add: word_le_nat_alt)
  have uc: "unat creator = unat amount - unat fee"
    unfolding creator_def by (rule unat_sub [OF fle'])
  have ule: "unat amount \<le> unat (coin_value payment)"
    using enough by (simp add: word_le_nat_alt)
  have cle: "creator \<le> coin_value payment"
    using uc ule by (simp add: word_le_nat_alt)
  have ur: "unat (coin_value payment - creator) = unat (coin_value payment) - unat creator"
    by (rule unat_sub [OF cle])
  have fle2: "fee \<le> coin_value payment - creator"
    using ur uc ule fle by (simp add: word_le_nat_alt)
  have rest: "coin_value payment - creator - fee = coin_value payment - amount"
    by (simp add: creator_def)
  have m: "u64_mul amount bps = Inr (amount * bps)" using prod by (simp add: u64_mul_def)
  have d: "u64_div (amount * bps) 10000 = Inr fee" by (simp add: u64_div_def fee_def)
  have s: "u64_sub amount fee = Inr creator" using fle by (simp add: u64_sub_def creator_def)
  have s1: "coin_split payment creator ctx
      = Inr (Coin (coin_value payment - creator), Coin creator, snd (object_new ctx))"
    using cle by (simp add: coin_split_def split_beta)
  have s2: "coin_split (Coin (coin_value payment - creator)) fee (snd (object_new ctx))
      = Inr (Coin (coin_value payment - amount), Coin fee, snd (object_new (snd (object_new ctx))))"
    using fle2 rest by (simp add: coin_split_def split_beta)
  have sn: "sender (snd (object_new (snd (object_new ctx)))) = sender ctx"
    by (simp add: object_new_def)
  from m d s s1 s2 sn show ?thesis by blast
qed

lemma tip_creator_succeeds:
  assumes "\<not> is_deleted c"
    and "unat (coin_value payment) * unat (tip_fee_bps cfg) < 2 ^ 64"
    and "unat (tip_fee_bps cfg) \<le> 10000"
    and "unat (total_tips c) + unat (coin_value payment) < 2 ^ 64"
    and "unat (tip_count c) + 1 < 2 ^ 64"
  shows "\<exists>c1 sent ctx1. tip_creator c cfg payment ctx = Inr (c1, sent, ctx1)"
proof -
  from fee_chain_succeeds [OF assms(2,3) order_refl, of ctx]
  obtain fee creator x1 x2 where
    "u64_mul (coin_value payment) (tip_fee_bps cfg) = Inr (coin_value payment * tip_fee_bps cfg)"
    "u64_div (coin_value payment * tip_fee_bps cfg) 10000 = Inr fee"
    "u64_sub (coin_value payment) fee = Inr creator"
    "coin_split payment creator ctx = Inr (Coin (coin_value payment - creator), Coin creator, x1)"
    "coin_split (Coin (coin_value payment - creator)) fee x1
        = Inr (Coin (coin_value payment - coin_value payment), Coin fee, x2)"
    by blast
  with assms(1,4,5) show ?thesis
    by (simp add: tip_creator_def destroy_zero_def u64_add_def)
qed

lemma purchase_access_succeeds:
  assumes "\<not> is_deleted c" "visibility c = VISIBILITY_PAY_TO_SEE" "\<not> is_encrypted c"
    and "price c \<le> coin_value payment"
    and "unat (price c) * unat (purchase_fee_bps cfg) < 2 ^ 64"
    and "unat (purchase_fee_bps cfg) \<le> 10000"
    and "unat (total_earnings c) + unat (price c) < 2 ^ 64"
    and "unat (purchase_count c) + 1 < 2 ^ 64"
  shows "\<exists>c1 sent tok ctx1. purchase_access c cfg payment ctx = Inr (c1, sent, tok, ctx1)"
proof -
  from fee_chain_succeeds [OF assms(5,6,4), of ctx]
  obtain fee creator x1 x2 where
    "u64_mul (price c) (purchase_fee_bps cfg) = Inr (price c * purchase_fee_bps cfg)"
    "u64_div (price c * purchase_fee_bps cfg) 10000 = Inr fee"
    "u64_sub (price c) fee = Inr creator"
    "coin_split payment creator ctx = Inr (Coin (coin_value payment - creator), Coin creator, x1)"
    "coin_split (Coin (coin_value payment - creator)) fee x1
        = Inr (Coin (coin_value payment - price c), Coin fee, x2)"
    by blast
  with assms(1,2,3,4,7,8) show ?thesis
    by (simp add: purchase_access_def destroy_zero_def u64_add_def u64_pos_iff split_beta
        Let_def)
qed

lemma purchase_access_encrypted_succeeds:
  assumes "\<not> is_deleted c" "visibility c = VISIBILITY_PAY_TO_SEE" "is_encrypted c"
    and "price c \<le> coin_value payment"
    and "unat (price c) * unat (purchase_fee_bps cfg) < 2 ^ 64"
    and "unat (purchase_fee_bps cfg) \<le> 10000"
    and "unat (total_earnings c) + unat (price c) < 2 ^ 64"
    and "unat (purchase_count c) + 1 < 2 ^ 64"
    and "unat (total_authorized policy) + 1 < 2 ^ 64"
  shows "\<exists>c1 policy1 sent tok ctx1.
    purchase_access_encrypted c policy cfg payment ctx = Inr (c1, policy1, sent, tok, ctx1)"
proof -
  from fee_chain_succeeds [OF assms(5,6,4), of ctx]
  obtain fee creator x1 x2 where
    "u64_mul (price c) (purchase_fee_bps cfg) = Inr (price c * purchase_fee_bps cfg)"
    "u64_div (price c * purchase_fee_bps cfg) 10000 = Inr fee"
    "u64_sub (price c) fee = Inr creator"
    "coin_split payment creator ctx = Inr (Coin (coin_value payment - creator), Coin creator, x1)"
    "coin_split (Coin (coin_value payment - creator)) fee x1
        = Inr (Coin (coin_value payment - price c), Coin fee, x2)"
    by blast
  with assms(1,2,3,4,7,8,9) show ?thesis
    by (simp add: purchase_access_encrypted_def destroy_zero_def u64_add_def u64_pos_iff
        grant_access_def table_add_def split_beta Let_def)
qed


text \<open>
  C6. Every successful tip_creator call is on a collection that is not deleted, whatever
  its visibility and price; with tip_amount the value of the payment, platform_fee is
  floor(tip_amount * tip_fee_bps / 10000), the owner is sent tip_amount - platform_fee
  and the platform address platform_fee, these are the only two transfers and they add
  up to tip_amount; tip_count grows by 1 and total_tips by tip_amount, and no other field
  of the collection changes. Conversely a tip of any amount on a collection that is not
  deleted succeeds, for every visibility and price, when the fee rate is at most 10000
  and no u64 computation overflows.
\<close>

theorem tip_settlement:
  "(tip_creator c cfg payment ctx = Inr (c1, sent, ctx1) \<longrightarrow>
      \<not> is_deleted c
    \<and> (\<exists>platform_fee creator_amount.
         unat platform_fee = unat (coin_value payment) * unat (tip_fee_bps cfg) div 10000
       \<and> unat creator_amount = unat (coin_value payment) - unat platform_fee
       \<and> unat creator_amount + unat platform_fee = unat (coin_value payment)
       \<and> sent = [(Coin creator_amount, owner c), (Coin platform_fee, platform_address cfg)])
    \<and> unat (tip_count c1) = unat (tip_count c) + 1
    \<and> unat (total_tips c1) = unat (total_tips c) + unat (coin_value payment)
    \<and> c1 = c\<lparr>total_tips := total_tips c1, tip_count := tip_count c1\<rparr>)
   \<and> (\<not> is_deleted c
      \<and> unat (coin_value payment) * unat (tip_fee_bps cfg) < 2 ^ 64
      \<and> unat (tip_fee_bps cfg) \<le> 10000
      \<and> unat (total_tips c) + unat (coin_value payment) < 2 ^ 64
      \<and> unat (tip_count c) + 1 < 2 ^ 64
      \<longrightarrow> (\<exists>c2 sent2 ctx2. tip_creator c cfg payment ctx = Inr (c2, sent2, ctx2)))"
  using tip_creator_Inr [of c cfg payment ctx c1 sent ctx1]
    tip_creator_succeeds [of c payment cfg ctx]
  by blast

theorem tip_settlement_witness:
  "tip_creator ex_collection ex_config (Coin 500) ex_ctx
     = Inr (ex_collection\<lparr>total_tips := 500, tip_count := 1\<rparr>, [(Coin 495, 9), (Coin 5, 8)],
            ex_ctx\<lparr>ids_created := 2\<rparr>)
   \<and> unat (tip_count (ex_collection\<lparr>total_tips := 500, tip_count := 1\<rparr>))
       = unat (tip_count ex_collection) + 1
   \<and> unat (total_tips (ex_collection\<lparr>total_tips := 500, tip_count := 1\<rparr>))
       = unat (total_tips ex_collection) + unat (coin_value (Coin 500))
   \<and> (\<exists>c2 sent2 ctx2. tip_creator (ex_collection\<lparr>visibility := 1\<rparr>) ex_config (Coin 3) ex_ctx
         = Inr (c2, sent2, ctx2))"
proof -
  have run: "tip_creator ex_collection ex_config (Coin 500) ex_ctx
     = Inr (ex_collection\<lparr>total_tips := 500, tip_count := 1\<rparr>, [(Coin 495, 9), (Coin 5, 8)],
            ex_ctx\<lparr>ids_created := 2\<rparr>)"
    by (simp add: tip_creator_def u64_mul_def u64_div_def u64_sub_def u64_add_def
        coin_split_def destroy_zero_def object_new_def ex_collection_def ex_config_def
        ex_ctx_def)
  have pre: "\<not> is_deleted (ex_collection\<lparr>visibility := 1\<rparr>)
      \<and> unat (coin_value (Coin 3)) * unat (tip_fee_bps ex_config) < 2 ^ 64
      \<and> unat (tip_fee_bps ex_config) \<le> 10000
      \<and> unat (total_tips (ex_collection\<lparr>visibility := 1\<rparr>)) + unat (coin_value (Coin 3))
          < 2 ^ 64
      \<and> unat (tip_count (ex_collection\<lparr>visibility := 1\<rparr>)) + 1 < 2 ^ 64"
    by (simp add: ex_collection_def ex_config_def)
  from run pre
    tip_settlement [of ex_collection ex_config "Coin 500" ex_ctx
      "ex_collection\<lparr>total_tips := 500, tip_count := 1\<rparr>" "[(Coin 495, 9), (Coin 5, 8)]"
      "ex_ctx\<lparr>ids_created := 2\<rparr>"]
    tip_settlement [of "ex_collection\<lparr>visibility := 1\<rparr>" ex_config "Coin 3" ex_ctx
      ex_collection "[]" ex_ctx]
  show ?thesis by blast
qed

text \<open>
  C2. Every successful purchase, through purchase_access or purchase_access_encrypted,
  is on a collection that is not deleted and has visibility PayToSee, with a payment of
  at least the price; platform_fee is floor(price * purchase_fee_bps / 10000), the owner
  is sent price - platform_fee, the platform address platform_fee, and the sender is
  sent the remainder payment_value - price when it is not zero. The two amounts add up
  to the price and the three to the payment; purchase_count grows by 1 and
  total_earnings by the price. Conversely, under these three conditions the entry point
  for the collection's encryption mode succeeds when the fee rate is at most 10000 and
  no u64 computation overflows.
\<close>

theorem purchase_settlement:
  "(purchase_access c cfg payment ctx = Inr (c1, sent, tok, ctx1)
      \<or> purchase_access_encrypted c policy cfg payment ctx = Inr (c1, policy1, sent, tok, ctx1)
    \<longrightarrow>
      \<not> is_deleted c \<and> visibility c = VISIBILITY_PAY_TO_SEE
    \<and> unat (price c) \<le> unat (coin_value payment)
    \<and> (\<exists>platform_fee creator_amount refund.
         unat platform_fee = unat (price c) * unat (purchase_fee_bps cfg) div 10000
       \<and> unat creator_amount = unat (price c) - unat platform_fee
       \<and> unat refund = unat (coin_value payment) - unat (price c)
       \<and> unat creator_amount + unat platform_fee = unat (price c)
       \<and> unat creator_amount + unat platform_fee + unat refund = unat (coin_value payment)
       \<and> sent = [(Coin creator_amount, owner c), (Coin platform_fee, platform_address cfg)]
                  @ (if refund = 0 then [] else [(Coin refund, sender ctx)])
       \<and> unat (purchase_count c1) = unat (purchase_count c) + 1
       \<and> unat (total_earnings c1) = unat (total_earnings c) + unat (price c)))
   \<and> (\<not> is_deleted c \<and> visibility c = VISIBILITY_PAY_TO_SEE
      \<and> price c \<le> coin_value payment
      \<and> unat (price c) * unat (purchase_fee_bps cfg) < 2 ^ 64
      \<and> unat (purchase_fee_bps cfg) \<le> 10000
      \<and> unat (total_earnings c) + unat (price c) < 2 ^ 64
      \<and> unat (purchase_count c) + 1 < 2 ^ 64
      \<and> unat (total_authorized policy) + 1 < 2 ^ 64
      \<longrightarrow> (if is_encrypted c
           then \<exists>c2 policy2 sent2 tok2 ctx2.
                  purchase_access_encrypted c policy cfg payment ctx
                    = Inr (c2, policy2, sent2, tok2, ctx2)
           else \<exists>c2 sent2 tok2 ctx2.
                  purchase_access c cfg payment ctx = Inr (c2, sent2, tok2, ctx2)))"
proof -
  have plain: "?thesis" if "\<not> is_encrypted c"
    using that purchase_access_Inr [of c cfg payment ctx c1 sent tok ctx1]
      purchase_access_encrypted_Inr [of c policy cfg payment ctx c1 policy1 sent tok ctx1]
      purchase_access_succeeds [of c payment cfg ctx]
    by (simp only: if_False) blast
  have enc: "?thesis" if "is_encrypted c"
    using that purchase_access_Inr [of c cfg payment ctx c1 sent tok ctx1]
      purchase_access_encrypted_Inr [of c policy cfg payment ctx c1 policy1 sent tok ctx1]
      purchase_access_encrypted_succeeds [of c payment cfg policy ctx]
    by (simp only: if_True) blast
  from plain enc show ?thesis by blast
qed

theorem purchase_settlement_witness:
  "purchase_access ex_collection ex_config (Coin 1500) ex_ctx
     = Inr (ex_collection\<lparr>total_earnings := 1000, purchase_count := 1\<rparr>,
            [(Coin 975, 9), (Coin 25, 8), (Coin 500, 1)],
            (\<lparr>t_id = 102, t_collection_id = 50, t_owner = 1, purchased_at = 1000\<rparr>, 1),
            ex_ctx\<lparr>ids_created := 3\<rparr>)
   \<and> purchase_access_encrypted (ex_collection\<lparr>is_encrypted := True\<rparr>) ex_policy ex_config
       (Coin 1000) (ex_ctx\<lparr>sender := 2\<rparr>)
     = Inr (ex_collection\<lparr>is_encrypted := True, total_earnings := 1000, purchase_count := 1\<rparr>,
            ex_policy\<lparr>authorized_users := [2 \<mapsto> True], total_authorized := 1\<rparr>,
            [(Coin 975, 9), (Coin 25, 8)],
            (\<lparr>t_id = 102, t_collection_id = 50, t_owner = 2, purchased_at = 1000\<rparr>, 2),
            ex_ctx\<lparr>sender := 2, ids_created := 3\<rparr>)
   \<and> unat (total_earnings (ex_collection\<lparr>total_earnings := 1000, purchase_count := 1\<rparr>))
       = unat (total_earnings ex_collection) + unat (price ex_collection)
   \<and> unat (purchase_count
         (ex_collection\<lparr>is_encrypted := True, total_earnings := 1000, purchase_count := 1\<rparr>))
       = unat (purchase_count (ex_collection\<lparr>is_encrypted := True\<rparr>)) + 1"
proof -
  have plain: "purchase_access ex_collection ex_config (Coin 1500) ex_ctx
     = Inr (ex_collection\<lparr>total_earnings := 1000, purchase_count := 1\<rparr>,
            [(Coin 975, 9), (Coin 25, 8), (Coin 500, 1)],
            (\<lparr>t_id = 102, t_collection_id = 50, t_owner = 1, purchased_at = 1000\<rparr>, 1),
            ex_ctx\<lparr>ids_created := 3\<rparr>)"
    by (simp add: purchase_access_def VISIBILITY_PAY_TO_SEE_def u64_mul_def u64_div_def
        u64_sub_def u64_add_def coin_split_def destroy_zero_def object_new_def
        ex_collection_def ex_config_def ex_ctx_def)
  have enc: "purchase_access_encrypted (ex_collection\<lparr>is_encrypted := True\<rparr>) ex_policy
       ex_config (Coin 1000) (ex_ctx\<lparr>sender := 2\<rparr>)
     = Inr (ex_collection\<lparr>is_encrypted := True, total_earnings := 1000, purchase_count := 1\<rparr>,
            ex_policy\<lparr>authorized_users := [2 \<mapsto> True], total_authorized := 1\<rparr>,
            [(Coin 975, 9), (Coin 25, 8)],
            (\<lparr>t_id = 102, t_collection_id = 50, t_owner = 2, purchased_at = 1000\<rparr>, 2),
            ex_ctx\<lparr>sender := 2, ids_created := 3\<rparr>)"
    by (simp add: purchase_access_encrypted_def VISIBILITY_PAY_TO_SEE_def u64_mul_def
        u64_div_def u64_sub_def u64_add_def coin_split_def destroy_zero_def object_new_def
        grant_access_def table_contains_def table_add_def
        ex_collection_def ex_config_def ex_ctx_def ex_policy_def)
  from plain
    purchase_settlement [of ex_collection ex_config "Coin 1500" ex_ctx
      "ex_collection\<lparr>total_earnings := 1000, purchase_count := 1\<rparr>"
      "[(Coin 975, 9), (Coin 25, 8), (Coin 500, 1)]"
      "(\<lparr>t_id = 102, t_collection_id = 50, t_owner = 1, purchased_at = 1000\<rparr>, 1)"
      "ex_ctx\<lparr>ids_created := 3\<rparr>" ex_policy ex_policy]
  have a: "unat (total_earnings (ex_collection\<lparr>total_earnings := 1000, purchase_count := 1\<rparr>))
       = unat (total_earnings ex_collection) + unat (price ex_collection)"
    by blast
  from enc
    purchase_settlement [of "ex_collection\<lparr>is_encrypted := True\<rparr>" ex_config "Coin 1000"
      "ex_ctx\<lparr>sender := 2\<rparr>"
      "ex_collection\<lparr>is_encrypted := True, total_earnings := 1000, purchase_count := 1\<rparr>"
      "[(Coin 975, 9), (Coin 25, 8)]"
      "(\<lparr>t_id = 102, t_collection_id = 50, t_owner = 2, purchased_at = 1000\<rparr>, 2)"
      "ex_ctx\<lparr>sender := 2, ids_created := 3\<rparr>" ex_policy
      "ex_policy\<lparr>authorized_users := [2 \<mapsto> True], total_authorized := 1\<rparr>"]
  have b: "unat (purchase_count
         (ex_collection\<lparr>is_encrypted := True, total_earnings := 1000, purchase_count := 1\<rparr>))
       = unat (purchase_count (ex_collection\<lparr>is_encrypted := True\<rparr>)) + 1"
    by blast
  from plain enc a b show ?thesis by blast
qed

section \<open>Fee rates above 10000 basis points\<close>

lemma fee_exceeds_price:
  fixes p b :: nat
  assumes "10000 < b" and "10000 \<le> p * (b - 10000)"
  shows "p < p * b div 10000"
proof -
  from assms(1) have "b = 10000 + (b - 10000)" by simp
  then have "p * b = p * 10000 + p * (b - 10000)"
    by (metis distrib_left)
  with assms(2) have "(p + 1) * 10000 \<le> p * b" by simp
  then have "(p + 1) * 10000 div 10000 \<le> p * b div 10000" by (rule div_le_mono)
  then show ?thesis by simp
qed

lemma fee_computation_aborts:
  assumes "10000 < unat bps" and "10000 \<le> unat p * (unat bps - 10000)"
  shows "and_then (u64_mul p bps) (\<lambda>product.
         and_then (u64_div product 10000) (\<lambda>platform_fee.
         and_then (u64_sub p platform_fee) (f product platform_fee))) = Inl ArithmeticError"
proof (cases "unat p * unat bps < 2 ^ 64")
  case True
  then have "unat (p * bps) = unat p * unat bps"
    by (simp add: unat_mult_lem [THEN iffD1])
  then have "unat (p * bps div 10000) = unat p * unat bps div 10000"
    by (simp add: unat_div)
  with fee_exceeds_price [OF assms] have "\<not> unat (p * bps div 10000) \<le> unat p" by simp
  with True show ?thesis by (simp add: u64_mul_def u64_div_def u64_sub_def)
next
  case False
  then show ?thesis by (simp add: u64_mul_def)
qed

text \<open>
  C10 (amended). update_platform_fees checks the sender only: the holder of the platform
  address can store any two u64 values, also values above 10000. With purchase_fee_bps
  above 10000 and a price for which the fee floor(price * purchase_fee_bps / 10000) is
  larger than the price, that is price * (purchase_fee_bps - 10000) >= 10000, every
  purchase that passes the guards aborts with the arithmetic error of the virtual
  machine and not with an error code of the module: in the subtraction
  price - platform_fee when the product price * purchase_fee_bps fits in a u64, and in
  that multiplication otherwise.
\<close>

theorem excessive_fee_aborts_purchase:
  "(platform_address cfg0 = sender actx \<longrightarrow>
      update_platform_fees cfg0 new_purchase_fee_bps new_tip_fee_bps actx
        = Inr (cfg0\<lparr>purchase_fee_bps := new_purchase_fee_bps, tip_fee_bps := new_tip_fee_bps\<rparr>))
   \<and> (\<not> is_deleted c \<and> visibility c = VISIBILITY_PAY_TO_SEE \<and> price c \<le> coin_value payment
        \<and> 10000 < unat (purchase_fee_bps cfg)
        \<and> 10000 \<le> unat (price c) * (unat (purchase_fee_bps cfg) - 10000)
      \<longrightarrow> (\<not> is_encrypted c \<longrightarrow> purchase_access c cfg payment ctx = Inl ArithmeticError)
        \<and> (is_encrypted c \<longrightarrow>
              purchase_access_encrypted c policy cfg payment ctx = Inl ArithmeticError)
        \<and> (unat (price c) * unat (purchase_fee_bps cfg) < 2 ^ 64 \<longrightarrow>
              u64_mul (price c) (purchase_fee_bps cfg) = Inr (price c * purchase_fee_bps cfg)
            \<and> u64_div (price c * purchase_fee_bps cfg) 10000
                = Inr (price c * purchase_fee_bps cfg div 10000)
            \<and> u64_sub (price c) (price c * purchase_fee_bps cfg div 10000)
                = Inl ArithmeticError)
        \<and> (\<not> unat (price c) * unat (purchase_fee_bps cfg) < 2 ^ 64 \<longrightarrow>
              u64_mul (price c) (purchase_fee_bps cfg) = Inl ArithmeticError))"
proof -
  have upd: "update_platform_fees cfg0 new_purchase_fee_bps new_tip_fee_bps actx
        = Inr (cfg0\<lparr>purchase_fee_bps := new_purchase_fee_bps, tip_fee_bps := new_tip_fee_bps\<rparr>)"
    if "platform_address cfg0 = sender actx"
    using that by (simp add: update_platform_fees_def)
  have plain: "purchase_access c cfg payment ctx = Inl ArithmeticError"
    if "\<not> is_deleted c" "visibility c = VISIBILITY_PAY_TO_SEE" "price c \<le> coin_value payment"
      "10000 < unat (purchase_fee_bps cfg)"
      "10000 \<le> unat (price c) * (unat (purchase_fee_bps cfg) - 10000)" "\<not> is_encrypted c"
    using that(1,2,3,6) fee_computation_aborts [OF that(4,5)]
    by (simp add: purchase_access_def)
  have enc: "purchase_access_encrypted c policy cfg payment ctx = Inl ArithmeticError"
    if "\<not> is_deleted c" "visibility c = VISIBILITY_PAY_TO_SEE" "price c \<le> coin_value payment"
      "10000 < unat (purchase_fee_bps cfg)"
      "10000 \<le> unat (price c) * (unat (purchase_fee_bps cfg) - 10000)" "is_encrypted c"
    using that(1,2,3,6) fee_computation_aborts [OF that(4,5)]
    by (simp add: purchase_access_encrypted_def)
  have sub: "u64_mul (price c) (purchase_fee_bps cfg) = Inr (price c * purchase_fee_bps cfg)
            \<and> u64_div (price c * purchase_fee_bps cfg) 10000
                = Inr (price c * purchase_fee_bps cfg div 10000)
            \<and> u64_sub (price c) (price c * purchase_fee_bps cfg div 10000)
                = Inl ArithmeticError"
    if "10000 < unat (purchase_fee_bps cfg)"
      "10000 \<le> unat (price c) * (unat (purchase_fee_bps cfg) - 10000)"
      "unat (price c) * unat (purchase_fee_bps cfg) < 2 ^ 64"
  proof -
    from that(3) have "unat (price c * purchase_fee_bps cfg)
        = unat (price c) * unat (purchase_fee_bps cfg)"
      by (simp add: unat_mult_lem [THEN iffD1])
    then have "unat (price c * purchase_fee_bps cfg div 10000)
        = unat (price c) * unat (purchase_fee_bps cfg) div 10000"
      by (simp add: unat_div)
    with fee_exceeds_price [OF that(1,2)]
    have "\<not> unat (price c * purchase_fee_bps cfg div 10000) \<le> unat (price c)" by simp
    with that(3) show ?thesis by (simp add: u64_mul_def u64_div_def u64_sub_def)
  qed
  have ovf: "u64_mul (price c) (purchase_fee_bps cfg) = Inl ArithmeticError"
    if "\<not> unat (price c) * unat (purchase_fee_bps cfg) < 2 ^ 64"
    using that by (simp add: u64_mul_def)
  from upd plain enc sub ovf show ?thesis by blast
qed

theorem fee_equal_to_price_counterexample:
  "update_platform_fees ex_config 10001 100 (ex_ctx\<lparr>sender := 8\<rparr>)
     = Inr (ex_config\<lparr>purchase_fee_bps := 10001, tip_fee_bps := 100\<rparr>)
   \<and> 10000 < unat (purchase_fee_bps (ex_config\<lparr>purchase_fee_bps := 10001, tip_fee_bps := 100\<rparr>))
   \<and> 0 < unat (price (ex_collection\<lparr>price := 1\<rparr>))
   \<and> purchase_access (ex_collection\<lparr>price := 1\<rparr>)
       (ex_config\<lparr>purchase_fee_bps := 10001, tip_fee_bps := 100\<rparr>) (Coin 1) ex_ctx
     = Inr (ex_collection\<lparr>price := 1, total_earnings := 1, purchase_count := 1\<rparr>,
            [(Coin 0, 9), (Coin 1, 8)],
            (\<lparr>t_id = 102, t_collection_id = 50, t_owner = 1, purchased_at = 1000\<rparr>, 1),
            ex_ctx\<lparr>ids_created := 3\<rparr>)"
  by (simp add: update_platform_fees_def purchase_access_def VISIBILITY_PAY_TO_SEE_def
      u64_mul_def u64_div_def u64_sub_def u64_add_def coin_split_def destroy_zero_def
      object_new_def ex_collection_def ex_config_def ex_ctx_def)

theorem excessive_fee_aborts_purchase_witness:
  "update_platform_fees ex_config 20000 100 (ex_ctx\<lparr>sender := 8\<rparr>)
     = Inr (ex_config\<lparr>purchase_fee_bps := 20000, tip_fee_bps := 100\<rparr>)
   \<and> purchase_access ex_collection (ex_config\<lparr>purchase_fee_bps := 20000, tip_fee_bps := 100\<rparr>)
       (Coin 1000) ex_ctx = Inl ArithmeticError
   \<and> u64_sub 1000 (1000 * 20000 div 10000) = Inl ArithmeticError"
  using excessive_fee_aborts_purchase [of ex_config "ex_ctx\<lparr>sender := 8\<rparr>" 20000 100
      ex_collection "Coin 1000" "ex_config\<lparr>purchase_fee_bps := 20000, tip_fee_bps := 100\<rparr>"
      ex_ctx ex_policy]
  by (simp add: ex_collection_def ex_config_def ex_ctx_def VISIBILITY_PAY_TO_SEE_def)

end
